theory Spec2Isabelle
  imports Complex_Main "HOL-Library.List_Lexorder" "HOL-Library.Char_ord" "HOL-Library.Multiset"
begin

section \<open>Python values and the operations the scripts apply to them\<close>

text \<open>
  A parsed \<^verbatim>\<open>package.json\<close> is whatever \<^verbatim>\<open>json.loads\<close> returns: \<^verbatim>\<open>None\<close>, a bool,
  a number, a string, a list or a dict. \<open>JNull\<close> is Python's \<^verbatim>\<open>None\<close>, so a missing
  value and a JSON \<^verbatim>\<open>null\<close> are the same value, as they are for \<^verbatim>\<open>dict.get\<close>.
  A dict is an association list in insertion order with pairwise distinct keys.
  Numbers are integers: the scripts only test a number for zero and for equality.
\<close>

datatype json =
    JNull
  | JBool bool
  | JNum int
  | JStr string
  | JArr "json list"
  | JObj "(string \<times> json) list"

datatype py_error =
    CalledProcessError string
  | JSONDecodeError
  | TypeError
  | AttributeError
  | KeyError
  | IndexError

text \<open>An exception that leaves a function is the \<open>Inl\<close> branch of its result.\<close>

definition bindE :: "'e + 'a \<Rightarrow> ('a \<Rightarrow> 'e + 'b) \<Rightarrow> 'e + 'b" where
  "bindE m f = (case m of Inl e \<Rightarrow> Inl e | Inr x \<Rightarrow> f x)"

text \<open>Python truthiness: what \<^verbatim>\<open>if not x\<close> tests.\<close>

fun truthy :: "json \<Rightarrow> bool" where
  "truthy JNull = False"
| "truthy (JBool b) = b"
| "truthy (JNum n) = (n \<noteq> 0)"
| "truthy (JStr s) = (s \<noteq> [])"
| "truthy (JArr xs) = (xs \<noteq> [])"
| "truthy (JObj kvs) = (kvs \<noteq> [])"

text \<open>
  Python's \<^verbatim>\<open>==\<close> on these values: \<^verbatim>\<open>True == 1\<close>, \<^verbatim>\<open>False == 0\<close>, lists compare
  elementwise and dicts compare as mappings, whatever their insertion order. \<open>canon\<close>
  maps a value to a representative of its \<^verbatim>\<open>==\<close> class.
\<close>

primrec canon :: "json \<Rightarrow> json" where
  "canon JNull = JNull"
| "canon (JBool b) = JNum (if b then 1 else 0)"
| "canon (JNum n) = JNum n"
| "canon (JStr s) = JStr s"
| "canon (JArr xs) = JArr (map canon xs)"
| "canon (JObj kvs) = JObj (sort_key fst (map (map_prod id canon) kvs))"

definition py_eq :: "json \<Rightarrow> json \<Rightarrow> bool" where
  "py_eq a b = (canon a = canon b)"

definition py_ne :: "json \<Rightarrow> json \<Rightarrow> bool" where
  "py_ne a b = (\<not> py_eq a b)"

fun starts_with :: "string \<Rightarrow> string \<Rightarrow> bool" where
  "starts_with [] s = True"
| "starts_with (p # ps) [] = False"
| "starts_with (p # ps) (c # cs) = (p = c \<and> starts_with ps cs)"

definition ends_with :: "string \<Rightarrow> string \<Rightarrow> bool" where
  "ends_with suffix s = starts_with (rev suffix) (rev s)"

fun is_substring :: "string \<Rightarrow> string \<Rightarrow> bool" where
  "is_substring k [] = (k = [])"
| "is_substring k (c # cs) = (starts_with k (c # cs) \<or> is_substring k cs)"

text \<open>\<^verbatim>\<open>key in x\<close> for a string key: dict membership, list membership, substring test;
  a number, a bool or \<^verbatim>\<open>None\<close> is not iterable.\<close>

fun py_contains :: "string \<Rightarrow> json \<Rightarrow> py_error + bool" where
  "py_contains k (JObj kvs) = Inr (k \<in> set (map fst kvs))"
| "py_contains k (JArr xs) = Inr (JStr k \<in> set xs)"
| "py_contains k (JStr s) = Inr (is_substring k s)"
| "py_contains k JNull = Inl TypeError"
| "py_contains k (JBool b) = Inl TypeError"
| "py_contains k (JNum n) = Inl TypeError"

text \<open>\<^verbatim>\<open>x[key]\<close> for a string key: only a dict can be indexed by a string.\<close>

fun py_getitem :: "json \<Rightarrow> string \<Rightarrow> py_error + json" where
  "py_getitem (JObj kvs) k = (case map_of kvs k of None \<Rightarrow> Inl KeyError | Some v \<Rightarrow> Inr v)"
| "py_getitem j k = Inl TypeError"

text \<open>\<^verbatim>\<open>x.get(key)\<close>: only a dict has the method; a missing key gives \<^verbatim>\<open>None\<close>.\<close>

fun py_get :: "json \<Rightarrow> string \<Rightarrow> py_error + json" where
  "py_get (JObj kvs) k = (case map_of kvs k of None \<Rightarrow> Inr JNull | Some v \<Rightarrow> Inr v)"
| "py_get j k = Inl AttributeError"

fun py_items :: "json \<Rightarrow> py_error + (string \<times> json) list" where
  "py_items (JObj kvs) = Inr kvs"
| "py_items j = Inl AttributeError"

text \<open>\<^verbatim>\<open>s.lstrip('^~')\<close>.\<close>

definition lstrip_range :: "string \<Rightarrow> string" where
  "lstrip_range s = dropWhile (\<lambda>c. c = CHR ''^'' \<or> c = CHR ''~'') s"

text \<open>Assignment \<^verbatim>\<open>d[k] = v\<close> on an insertion-ordered dict.\<close>

fun dict_set :: "('k \<times> 'v) list \<Rightarrow> 'k \<Rightarrow> 'v \<Rightarrow> ('k \<times> 'v) list" where
  "dict_set [] k v = [(k, v)]"
| "dict_set ((k', v') # kvs) k v =
     (if k' = k then (k, v) # kvs else (k', v') # dict_set kvs k v)"

section \<open>Version Resolver: \<^verbatim>\<open>extract_component_versions\<close>\<close>

text \<open>What \<^verbatim>\<open>git show <commit>:package.json\<close> followed by \<^verbatim>\<open>json.loads\<close> can give.\<close>

datatype manifest_at = ShowFailed | Unparsable | Document json

text \<open>\<^verbatim>\<open>get_package_json_at_commit\<close>: both exceptions are caught and give \<^verbatim>\<open>None\<close>.\<close>

fun get_package_json_at_commit :: "manifest_at \<Rightarrow> json" where
  "get_package_json_at_commit ShowFailed = JNull"
| "get_package_json_at_commit Unparsable = JNull"
| "get_package_json_at_commit (Document j) = j"

record versions =
  dependency :: json
  override :: json
  transitive_overrides :: "(string \<times> json) list"

text \<open>The loop over \<^verbatim>\<open>overrides.items()\<close>: every key that contains \<^verbatim>\<open>>\<close> and ends
  with \<^verbatim>\<open>>{package_name}\<close> adds the pair (parent, version), the parent being
  \<^verbatim>\<open>key.split(">")[0]\<close>.\<close>

definition is_transitive_key :: "string \<Rightarrow> string \<Rightarrow> bool" where
  "is_transitive_key package_name key =
     (CHR ''>'' \<in> set key \<and> ends_with (CHR ''>'' # package_name) key)"

definition transitive_of :: "string \<Rightarrow> (string \<times> json) list \<Rightarrow> (string \<times> json) list" where
  "transitive_of package_name items =
     map (\<lambda>(key, value). (takeWhile (\<lambda>c. c \<noteq> CHR ''>'') key, value))
       (filter (\<lambda>(key, value). is_transitive_key package_name key) items)"

definition extract_component_versions :: "string \<Rightarrow> json \<Rightarrow> py_error + versions" where
  "extract_component_versions package_name package_json =
     bindE (py_contains ''dependencies'' package_json) (\<lambda>has_deps.
     bindE (if has_deps
            then bindE (py_getitem package_json ''dependencies'') (\<lambda>d. py_get d package_name)
            else Inr JNull) (\<lambda>dep1.
     bindE (if truthy dep1 then Inr False
            else py_contains ''devDependencies'' package_json) (\<lambda>use_dev.
     bindE (if use_dev
            then bindE (py_getitem package_json ''devDependencies'') (\<lambda>d. py_get d package_name)
            else Inr dep1) (\<lambda>dep.
     bindE (py_contains ''pnpm'' package_json) (\<lambda>has_pnpm.
     bindE (if has_pnpm
            then bindE (py_getitem package_json ''pnpm'') (py_contains ''overrides'')
            else Inr False) (\<lambda>has_overrides.
     if has_overrides
     then bindE (py_getitem package_json ''pnpm'') (\<lambda>pnpm.
          bindE (py_getitem pnpm ''overrides'') (\<lambda>overrides.
          bindE (py_get overrides package_name) (\<lambda>ov.
          bindE (py_items overrides) (\<lambda>items.
            Inr \<lparr>dependency = dep, override = ov,
                 transitive_overrides = transitive_of package_name items\<rparr>))))
     else Inr \<lparr>dependency = dep, override = JNull, transitive_overrides = []\<rparr>))))))"

text \<open>The effective version as the trackers compute it, three times each, from a
  \<open>versions\<close> value (priority: direct override, first transitive override, dependency).\<close>

definition effective_of :: "versions \<Rightarrow> json" where
  "effective_of v =
     (let e1 = override v;
          e2 = (if \<not> truthy e1 \<and> transitive_overrides v \<noteq> []
                then snd (hd (transitive_overrides v)) else e1)
      in if \<not> truthy e2 then dependency v else e2)"

text \<open>\<^verbatim>\<open>get_version_at_commit\<close> of the adoption analyzer resolves a version on its own.
  Only the two exceptions of retrieval and parsing are caught.\<close>

definition first_transitive :: "string \<Rightarrow> (string \<times> json) list \<Rightarrow> json \<Rightarrow> json" where
  "first_transitive package_name items version =
     (case filter (\<lambda>(key, value). is_transitive_key package_name key) items of
        [] \<Rightarrow> version
      | (key, value) # rest \<Rightarrow> value)"

definition get_version_at_commit :: "string \<Rightarrow> manifest_at \<Rightarrow> py_error + json" where
  "get_version_at_commit package_name m =
     (case m of
        ShowFailed \<Rightarrow> Inr JNull
      | Unparsable \<Rightarrow> Inr JNull
      | Document package_json \<Rightarrow>
          bindE (py_contains ''dependencies'' package_json) (\<lambda>has_deps.
          bindE (if has_deps
                 then bindE (py_getitem package_json ''dependencies'') (\<lambda>d. py_get d package_name)
                 else Inr JNull) (\<lambda>version.
          bindE (if truthy version then Inr False
                 else bindE (py_contains ''pnpm'' package_json) (\<lambda>has_pnpm.
                      if has_pnpm
                      then bindE (py_getitem package_json ''pnpm'') (py_contains ''overrides'')
                      else Inr False)) (\<lambda>use_overrides.
          if use_overrides
          then bindE (py_getitem package_json ''pnpm'') (\<lambda>pnpm.
               bindE (py_getitem pnpm ''overrides'') (\<lambda>overrides.
               bindE (py_get overrides package_name) (\<lambda>version2.
               if \<not> truthy version2
               then bindE (py_items overrides) (\<lambda>items.
                      Inr (first_transitive package_name items version2))
               else Inr version2)))
          else Inr version))))"

section \<open>Commit Walker and Change Detector\<close>

text \<open>What \<^verbatim>\<open>git show -s --format=...\<close> gives for a commit: a failure of the command, or
  the lines of its stripped output.\<close>

datatype show_info = InfoFailed string | InfoLines "string list"

record commit_info =
  ci_hash :: string
  ci_date :: string
  ci_author_name :: string
  ci_author_email :: string
  ci_message :: string

text \<open>\<^verbatim>\<open>get_commit_info\<close> reads \<^verbatim>\<open>lines[0]\<close> to \<^verbatim>\<open>lines[3]\<close> unguarded, and
  \<^verbatim>\<open>lines[4]\<close> only when it is there.\<close>

fun get_commit_info :: "show_info \<Rightarrow> py_error + commit_info" where
  "get_commit_info (InfoFailed msg) = Inl (CalledProcessError msg)"
| "get_commit_info (InfoLines ls) =
     (if length ls < 4 then Inl IndexError
      else Inr \<lparr>ci_hash = ls ! 0, ci_date = ls ! 1, ci_author_name = ls ! 2,
                ci_author_email = ls ! 3,
                ci_message = (if length ls > 4 then ls ! 4 else [])\<rparr>)"

text \<open>A commit of the \<^verbatim>\<open>git log\<close> listing, as the answers git gives for its hash.\<close>

record git_commit =
  gc_manifest :: manifest_at
  gc_info :: show_info

record change_record =
  cr_repository :: string
  cr_commit :: string
  cr_date :: string
  cr_author :: string
  cr_message :: string
  cr_dependency_version :: json
  cr_override_version :: json
  cr_transitive_overrides :: "(string \<times> json) list"
  cr_effective_version :: json
  cr_previous_effective :: json

record track_state =
  changes :: "change_record list"
  last_versions :: versions

text \<open>\<^verbatim>\<open>!=\<close> on two lists of \<^verbatim>\<open>{"parent": ..., "version": ...}\<close> dicts.\<close>

definition transitive_ne :: "(string \<times> json) list \<Rightarrow> (string \<times> json) list \<Rightarrow> bool" where
  "transitive_ne xs ys = (map (map_prod id canon) xs \<noteq> map (map_prod id canon) ys)"

definition versions_changed :: "versions \<Rightarrow> versions \<Rightarrow> bool" where
  "versions_changed v lv =
     (py_ne (dependency v) (dependency lv) \<or>
      py_ne (override v) (override lv) \<or>
      transitive_ne (transitive_overrides v) (transitive_overrides lv))"

definition initial_versions :: versions where
  "initial_versions = \<lparr>dependency = JNull, override = JNull, transitive_overrides = []\<rparr>"

definition initial_state :: track_state where
  "initial_state = \<lparr>changes = [], last_versions = initial_versions\<rparr>"

text \<open>The body of the loop of \<^verbatim>\<open>track_repo_version_changes\<close> for one commit.\<close>

definition track_commit ::
  "string \<Rightarrow> string \<Rightarrow> track_state \<Rightarrow> git_commit \<Rightarrow> py_error + track_state" where
  "track_commit package_name repo_name st c =
     (let package_json = get_package_json_at_commit (gc_manifest c) in
      if \<not> truthy package_json then Inr st
      else
        bindE (extract_component_versions package_name package_json) (\<lambda>v.
          let effective_version = effective_of v;
              last_effective = effective_of (last_versions st);
              changed = versions_changed v (last_versions st)
          in if changed \<and> py_ne effective_version last_effective
             then bindE (get_commit_info (gc_info c)) (\<lambda>info.
                    Inr \<lparr>changes = changes st @
                           [\<lparr>cr_repository = repo_name,
                             cr_commit = take 8 (ci_hash info),
                             cr_date = ci_date info,
                             cr_author = ci_author_name info,
                             cr_message = take 80 (ci_message info),
                             cr_dependency_version = dependency v,
                             cr_override_version = override v,
                             cr_transitive_overrides = transitive_overrides v,
                             cr_effective_version = effective_version,
                             cr_previous_effective = last_effective\<rparr>],
                         last_versions = v\<rparr>)
             else Inr (st\<lparr>last_versions := v\<rparr>)))"

fun track_commits ::
  "string \<Rightarrow> string \<Rightarrow> track_state \<Rightarrow> git_commit list \<Rightarrow> py_error + track_state" where
  "track_commits package_name repo_name st [] = Inr st"
| "track_commits package_name repo_name st (c # cs) =
     (case track_commit package_name repo_name st c of
        Inl e \<Rightarrow> Inl e
      | Inr st' \<Rightarrow> track_commits package_name repo_name st' cs)"

text \<open>The single-repository script \<^verbatim>\<open>track_component_versions.py\<close> has the same loop;
  it asks for the commit's metadata before it decides, and its record has no repository
  and no transitive-override list (its free-text \<^verbatim>\<open>changes\<close> field is left out here).\<close>

record change_record1 =
  c1_commit :: string
  c1_date :: string
  c1_author :: string
  c1_message :: string
  c1_dependency_version :: json
  c1_override_version :: json
  c1_effective_version :: json
  c1_previous_effective :: json

record track_state1 =
  changes1 :: "change_record1 list"
  last_versions1 :: versions

definition initial_state1 :: track_state1 where
  "initial_state1 = \<lparr>changes1 = [], last_versions1 = initial_versions\<rparr>"

definition track_commit1 ::
  "string \<Rightarrow> track_state1 \<Rightarrow> git_commit \<Rightarrow> py_error + track_state1" where
  "track_commit1 package_name st c =
     (let package_json = get_package_json_at_commit (gc_manifest c) in
      if \<not> truthy package_json then Inr st
      else
        bindE (extract_component_versions package_name package_json) (\<lambda>v.
        bindE (get_commit_info (gc_info c)) (\<lambda>info.
          let effective_version = effective_of v;
              last_effective = effective_of (last_versions1 st);
              changed = versions_changed v (last_versions1 st)
          in if changed \<and> py_ne effective_version last_effective
             then Inr \<lparr>changes1 = changes1 st @
                         [\<lparr>c1_commit = take 8 (ci_hash info),
                           c1_date = ci_date info,
                           c1_author = ci_author_name info,
                           c1_message = take 80 (ci_message info),
                           c1_dependency_version = dependency v,
                           c1_override_version = override v,
                           c1_effective_version = effective_version,
                           c1_previous_effective = last_effective\<rparr>],
                       last_versions1 = v\<rparr>
             else Inr (st\<lparr>last_versions1 := v\<rparr>))))"

fun track_commits1 ::
  "string \<Rightarrow> track_state1 \<Rightarrow> git_commit list \<Rightarrow> py_error + track_state1" where
  "track_commits1 package_name st [] = Inr st"
| "track_commits1 package_name st (c # cs) =
     (case track_commit1 package_name st c of
        Inl e \<Rightarrow> Inl e
      | Inr st' \<Rightarrow> track_commits1 package_name st' cs)"

text \<open>\<^verbatim>\<open>track_version_changes\<close>: the \<^verbatim>\<open>git log\<close> call is not guarded there.\<close>

datatype git_log = LogFailed string | LogCommits "git_commit list"

definition track_version_changes :: "string \<Rightarrow> git_log \<Rightarrow> py_error + change_record1 list" where
  "track_version_changes package_name history =
     (case history of
        LogFailed msg \<Rightarrow> Inl (CalledProcessError msg)
      | LogCommits commits \<Rightarrow>
          bindE (track_commits1 package_name initial_state1 commits) (\<lambda>st. Inr (changes1 st)))"

section \<open>Per-repository processing and the orchestrator\<close>

text \<open>The \<^verbatim>\<open>package.json\<close> of the working copy: missing, not JSON, or a document.\<close>

datatype worktree = NoFile | BadFile | GoodFile json

record repo =
  repo_name :: string
  repo_path :: string
  repo_log :: git_log
  repo_worktree :: worktree

record repo_result =
  rr_repository :: string
  rr_path :: string
  rr_error :: "string option"
  rr_changes :: "change_record list"
  rr_total_changes :: nat
  rr_current_version :: "json option"
  rr_current_version_details :: "versions option"
  rr_commits_analyzed :: "nat option"

definition error_result :: "repo \<Rightarrow> string \<Rightarrow> repo_result" where
  "error_result r msg =
     \<lparr>rr_repository = repo_name r, rr_path = repo_path r, rr_error = Some msg,
      rr_changes = [], rr_total_changes = 0, rr_current_version = None,
      rr_current_version_details = None, rr_commits_analyzed = None\<rparr>"

text \<open>The part of \<^verbatim>\<open>track_repo_version_changes\<close> after the loop: the current version
  from the working copy. \<^verbatim>\<open>json.load\<close> is called with no handler of its own.\<close>

definition current_version_of ::
  "string \<Rightarrow> worktree \<Rightarrow> py_error + (json \<times> versions option)" where
  "current_version_of package_name w =
     (case w of
        NoFile \<Rightarrow> Inr (JNull, None)
      | BadFile \<Rightarrow> Inl JSONDecodeError
      | GoodFile data \<Rightarrow>
          bindE (extract_component_versions package_name data) (\<lambda>v.
            Inr (effective_of v, Some v)))"

text \<open>The one handler of \<^verbatim>\<open>track_repo_version_changes\<close> is
  \<^verbatim>\<open>except subprocess.CalledProcessError\<close> around the whole body.\<close>

definition track_repo_version_changes :: "string \<Rightarrow> repo \<Rightarrow> py_error + repo_result" where
  "track_repo_version_changes package_name r =
     (case repo_log r of
        LogFailed msg \<Rightarrow> Inr (error_result r msg)
      | LogCommits commits \<Rightarrow>
          (case bindE (track_commits package_name (repo_name r) initial_state commits) (\<lambda>st.
                bindE (current_version_of package_name (repo_worktree r)) (\<lambda>(cur, details).
                  Inr \<lparr>rr_repository = repo_name r, rr_path = repo_path r, rr_error = None,
                       rr_changes = changes st, rr_total_changes = length (changes st),
                       rr_current_version = Some cur,
                       rr_current_version_details = details,
                       rr_commits_analyzed = Some (length commits)\<rparr>)) of
             Inl (CalledProcessError msg) \<Rightarrow> Inr (error_result r msg)
           | Inl e \<Rightarrow> Inl e
           | Inr res \<Rightarrow> Inr res))"

text \<open>The merge loop of \<^verbatim>\<open>process_repositories\<close>:
  \<^verbatim>\<open>self.repo_results[result["repository"]] = result\<close> for one repository after the
  other; an exception of a repository's processing leaves the loop.\<close>

fun merge_results ::
  "string \<Rightarrow> (string \<times> repo_result) list \<Rightarrow> repo list \<Rightarrow> py_error + (string \<times> repo_result) list" where
  "merge_results package_name results [] = Inr results"
| "merge_results package_name results (r # rs) =
     (case track_repo_version_changes package_name r of
        Inl e \<Rightarrow> Inl e
      | Inr result \<Rightarrow>
          merge_results package_name (dict_set results (rr_repository result) result) rs)"

text \<open>\<^verbatim>\<open>process_repositories\<close>. In the parallel branch every repository is a task of
  the pool and the main thread merges the results in the order \<^verbatim>\<open>as_completed\<close> yields
  them: \<open>completed\<close>, some rearrangement of \<open>repos\<close>, is that order. The sequential branch
  merges in the order of \<open>repos\<close>.\<close>

definition process_repositories ::
  "string \<Rightarrow> repo list \<Rightarrow> bool \<Rightarrow> repo list \<Rightarrow> py_error + (string \<times> repo_result) list" where
  "process_repositories package_name repos parallel completed =
     (if parallel \<and> length repos > 1
      then merge_results package_name [] completed
      else merge_results package_name [] repos)"

section \<open>Adoption analyzer: releases, adoptions and metrics\<close>

text \<open>A naive \<^verbatim>\<open>datetime\<close> is the number of microseconds since the start of day 0 of
  the proleptic Gregorian ordinal (\<^verbatim>\<open>date.toordinal\<close>); \<^verbatim>\<open>(a - b).days\<close> is the floor
  of the difference in days, as \<^verbatim>\<open>timedelta\<close> normalises it.\<close>

type_synonym datetime = int

definition is_leap :: "int \<Rightarrow> bool" where
  "is_leap y = (y mod 4 = 0 \<and> (y mod 100 \<noteq> 0 \<or> y mod 400 = 0))"

definition days_before_year :: "int \<Rightarrow> int" where
  "days_before_year year = (let y = year - 1 in y * 365 + y div 4 - y div 100 + y div 400)"

definition days_in_month :: "int \<Rightarrow> nat \<Rightarrow> int" where
  "days_in_month year month =
     (if month = 2 then (if is_leap year then 29 else 28)
      else if month = 4 \<or> month = 6 \<or> month = 9 \<or> month = 11 then 30 else 31)"

definition ymd2ord :: "int \<Rightarrow> nat \<Rightarrow> int \<Rightarrow> int" where
  "ymd2ord year month day =
     days_before_year year + sum_list (map (days_in_month year) [1..<month]) + day"

definition mk_datetime :: "int \<Rightarrow> nat \<Rightarrow> int \<Rightarrow> int \<Rightarrow> int \<Rightarrow> int \<Rightarrow> datetime" where
  "mk_datetime year month day hh mm ss =
     (((ymd2ord year month day * 24 + hh) * 60 + mm) * 60 + ss) * 1000000"

definition timedelta_days :: "datetime \<Rightarrow> datetime \<Rightarrow> int" where
  "timedelta_days a b = (a - b) div (86400 * 1000000)"

text \<open>\<^verbatim>\<open>int(p)\<close> on a string, for ASCII input: surrounding whitespace, an optional
  sign, decimal digits with single underscores between them; anything else is a
  \<^verbatim>\<open>ValueError\<close> (\<open>None\<close>).\<close>

definition is_space :: "char \<Rightarrow> bool" where
  "is_space c = (c = CHR '' '' \<or> c = CHR 0x09 \<or> c = CHR 0x0A \<or> c = CHR 0x0B \<or>
                 c = CHR 0x0C \<or> c = CHR 0x0D \<or> c = CHR 0x1C \<or> c = CHR 0x1D \<or>
                 c = CHR 0x1E \<or> c = CHR 0x1F)"

definition digit_val :: "char \<Rightarrow> int option" where
  "digit_val c =
     (if CHR ''0'' \<le> c \<and> c \<le> CHR ''9'' then Some (int (of_char c) - 48) else None)"

fun digits_value :: "int \<Rightarrow> bool \<Rightarrow> string \<Rightarrow> int option" where
  "digits_value acc after_digit [] = (if after_digit then Some acc else None)"
| "digits_value acc after_digit (c # cs) =
     (if c = CHR ''_''
      then (if after_digit then digits_value acc False cs else None)
      else (case digit_val c of
              None \<Rightarrow> None
            | Some d \<Rightarrow> digits_value (10 * acc + d) True cs))"

definition py_int :: "string \<Rightarrow> int option" where
  "py_int s =
     (case rev (dropWhile is_space (rev (dropWhile is_space s))) of
        [] \<Rightarrow> None
      | c # cs \<Rightarrow>
          if c = CHR ''-'' then map_option uminus (digits_value 0 False cs)
          else if c = CHR ''+'' then digits_value 0 False cs
          else digits_value 0 False (c # cs))"

text \<open>\<^verbatim>\<open>s.split(sep)\<close> for a one-character separator.\<close>

fun split_on :: "char \<Rightarrow> string \<Rightarrow> string list" where
  "split_on sep [] = [[]]"
| "split_on sep (c # cs) =
     (if c = sep then [] # split_on sep cs
      else (case split_on sep cs of
              [] \<Rightarrow> [[c]]
            | p # ps \<Rightarrow> (c # p) # ps))"

text \<open>\<^verbatim>\<open>parse_version\<close> of the analyzer: the tuple of the first three parts as
  integers, or \<^verbatim>\<open>(0, 0, 0)\<close> when one of them is no integer. Tuples of integers compare
  as lists do in the lexicographic order.\<close>

definition parse_version :: "string \<Rightarrow> int list" where
  "parse_version version =
     (case those (map py_int (take 3 (split_on (CHR ''.'') version))) of
        None \<Rightarrow> [0, 0, 0]
      | Some parts \<Rightarrow> parts)"

record release_info =
  date :: datetime
  rel_version :: string

type_synonym releases = "(string \<times> release_info) list"

text \<open>\<^verbatim>\<open>load_releases\<close>, from the entries of the release file (version string and
  parsed release date), into \<^verbatim>\<open>self.releases\<close>, which starts empty.\<close>

definition load_releases :: "(string \<times> datetime) list \<Rightarrow> releases" where
  "load_releases entries =
     fold (\<lambda>(version, release_date) rel.
             dict_set rel (lstrip_range version) \<lparr>date = release_date, rel_version = version\<rparr>)
       entries []"

text \<open>\<^verbatim>\<open>xs.index(x)\<close>: the first position, or \<^verbatim>\<open>ValueError\<close> (\<open>None\<close>).\<close>

fun index_of :: "'a list \<Rightarrow> 'a \<Rightarrow> nat option" where
  "index_of [] x = None"
| "index_of (y # ys) x = (if y = x then Some 0 else map_option Suc (index_of ys x))"

definition all_versions :: "releases \<Rightarrow> string list" where
  "all_versions rel = sort_key parse_version (map fst rel)"

definition count_versions_between :: "releases \<Rightarrow> string \<Rightarrow> string \<Rightarrow> int" where
  "count_versions_between rel version1 version2 =
     (case index_of (all_versions rel) version1 of
        None \<Rightarrow> 0
      | Some idx1 \<Rightarrow>
          (case index_of (all_versions rel) version2 of
             None \<Rightarrow> 0
           | Some idx2 \<Rightarrow> \<bar>int idx2 - int idx1\<bar> - 1))"

record adoption =
  version :: string
  raw_version :: string
  adoption_date :: datetime
  commit :: string

text \<open>A line of the analyzer's \<^verbatim>\<open>git log --format=%H|%ai\<close> listing, with the date
  parsed, and what git gives for the manifest at that commit.\<close>

record log_entry =
  le_hash :: string
  le_date :: datetime
  le_manifest :: manifest_at

text \<open>The body of the loop of \<^verbatim>\<open>get_repo_adoptions\<close>; the state is the list of
  adoptions and \<^verbatim>\<open>last_version\<close>. \<^verbatim>\<open>version.lstrip\<close> exists only on a string.\<close>

definition adoption_step ::
  "string \<Rightarrow> adoption list \<times> json \<Rightarrow> log_entry \<Rightarrow> py_error + adoption list \<times> json" where
  "adoption_step package_name st e =
     (case st of (adoptions, last_version) \<Rightarrow>
        bindE (get_version_at_commit package_name (le_manifest e)) (\<lambda>v.
          if truthy v \<and> py_ne v last_version
          then (case v of
                  JStr s \<Rightarrow>
                    Inr (adoptions @
                           [\<lparr>version = lstrip_range s, raw_version = s,
                             adoption_date = le_date e, commit = take 8 (le_hash e)\<rparr>],
                         v)
                | _ \<Rightarrow> Inl AttributeError)
          else Inr (adoptions, last_version)))"

fun adoption_loop ::
  "string \<Rightarrow> adoption list \<times> json \<Rightarrow> log_entry list \<Rightarrow> py_error + adoption list \<times> json" where
  "adoption_loop package_name st [] = Inr st"
| "adoption_loop package_name st (e # es) =
     (case adoption_step package_name st e of
        Inl err \<Rightarrow> Inl err
      | Inr st' \<Rightarrow> adoption_loop package_name st' es)"

datatype adoption_log = AdoptionLogFailed string | AdoptionLog "log_entry list"

text \<open>\<^verbatim>\<open>get_repo_adoptions\<close>: the returned list. Its handler,
  \<^verbatim>\<open>except subprocess.CalledProcessError\<close>, is reached by a failure of \<^verbatim>\<open>git log\<close>
  only (\<^verbatim>\<open>get_version_at_commit\<close> catches the failure of its own \<^verbatim>\<open>git show\<close>); any
  other exception of the loop leaves the function.\<close>

definition get_repo_adoptions :: "string \<Rightarrow> adoption_log \<Rightarrow> py_error + adoption list" where
  "get_repo_adoptions package_name history =
     (case history of
        AdoptionLogFailed msg \<Rightarrow> Inr []
      | AdoptionLog entries \<Rightarrow>
          bindE (adoption_loop package_name ([], JNull) entries) (\<lambda>(adoptions, last_version).
            Inr adoptions))"

record version_info =
  vi_version :: string
  vi_release_date :: datetime
  vi_adoption_date :: datetime
  lag_days :: int
  vi_commit :: string
  versions_skipped :: "int option"
  days_since_last_update :: "int option"

record repo_metrics =
  total_updates :: nat
  m_versions :: "version_info list"
  adoption_lags :: "int list"
  skip_counts :: "int list"
  update_intervals :: "int list"
  avg_lag_days :: "rat option"
  median_lag_days :: "rat option"
  min_lag_days :: "int option"
  max_lag_days :: "int option"
  avg_versions_skipped :: "rat option"
  avg_update_interval :: "rat option"

text \<open>The body of the loop \<^verbatim>\<open>for i, adoption in enumerate(adoptions)\<close> of
  \<^verbatim>\<open>calculate_adoption_metrics\<close>.\<close>

definition metrics_step ::
  "releases \<Rightarrow> adoption list \<Rightarrow> nat \<times> adoption \<Rightarrow> repo_metrics \<Rightarrow> repo_metrics" where
  "metrics_step rel adoptions ia m =
     (case ia of (i, a) \<Rightarrow>
       (case map_of rel (version a) of
          None \<Rightarrow> m
        | Some r \<Rightarrow>
            let lag = timedelta_days (adoption_date a) (date r);
                info = \<lparr>vi_version = version a, vi_release_date = date r,
                        vi_adoption_date = adoption_date a, lag_days = lag,
                        vi_commit = commit a, versions_skipped = None,
                        days_since_last_update = None\<rparr>;
                (info', m') =
                  (if i > 0
                   then
                     let prev = adoptions ! (i - 1);
                         skipped = count_versions_between rel (version prev) (version a);
                         update_interval =
                           timedelta_days (adoption_date a) (adoption_date prev)
                     in (info\<lparr>versions_skipped := Some skipped,
                               days_since_last_update := Some update_interval\<rparr>,
                         m\<lparr>skip_counts := skip_counts m @ [skipped],
                           update_intervals := update_intervals m @ [update_interval]\<rparr>)
                   else (info, m))
            in m'\<lparr>m_versions := m_versions m' @ [info'],
                   adoption_lags := adoption_lags m' @ [lag]\<rparr>))"

text \<open>\<^verbatim>\<open>statistics.mean\<close> and \<^verbatim>\<open>statistics.median\<close> as the exact rational the
  library computes before it returns it as an \<^verbatim>\<open>int\<close> or the nearest \<^verbatim>\<open>float\<close>.\<close>

definition mean :: "int list \<Rightarrow> rat" where
  "mean xs = of_int (sum_list xs) / of_int (int (length xs))"

definition median :: "int list \<Rightarrow> rat" where
  "median xs =
     (let s = sort xs; n = length s
      in if n mod 2 = 1 then of_int (s ! (n div 2))
         else (of_int (s ! (n div 2 - 1)) + of_int (s ! (n div 2))) / 2)"

definition initial_metrics :: "adoption list \<Rightarrow> repo_metrics" where
  "initial_metrics adoptions =
     \<lparr>total_updates = length adoptions, m_versions = [], adoption_lags = [],
      skip_counts = [], update_intervals = [], avg_lag_days = None,
      median_lag_days = None, min_lag_days = None, max_lag_days = None,
      avg_versions_skipped = None, avg_update_interval = None\<rparr>"

definition finish_metrics :: "repo_metrics \<Rightarrow> repo_metrics" where
  "finish_metrics m =
     (let m1 = (case adoption_lags m of
                  [] \<Rightarrow> m
                | x # xs \<Rightarrow>
                    m\<lparr>avg_lag_days := Some (mean (x # xs)),
                      median_lag_days := Some (median (x # xs)),
                      min_lag_days := Some (fold min xs x),
                      max_lag_days := Some (fold max xs x)\<rparr>);
          m2 = (if skip_counts m1 \<noteq> []
                then m1\<lparr>avg_versions_skipped := Some (mean (skip_counts m1))\<rparr> else m1)
      in if update_intervals m2 \<noteq> []
         then m2\<lparr>avg_update_interval := Some (mean (update_intervals m2))\<rparr> else m2)"

text \<open>The metrics of one repository, and \<^verbatim>\<open>calculate_adoption_metrics\<close> over
  \<^verbatim>\<open>self.repo_adoptions\<close>.\<close>

definition repo_metrics_of :: "releases \<Rightarrow> adoption list \<Rightarrow> repo_metrics" where
  "repo_metrics_of rel adoptions =
     finish_metrics
       (fold (metrics_step rel adoptions) (enumerate 0 adoptions) (initial_metrics adoptions))"

definition calculate_adoption_metrics ::
  "releases \<Rightarrow> (string \<times> adoption list) list \<Rightarrow> (string \<times> repo_metrics) list" where
  "calculate_adoption_metrics rel repo_adoptions =
     map (\<lambda>(repo_name, adoptions). (repo_name, repo_metrics_of rel adoptions)) repo_adoptions"

text \<open>The \<^verbatim>\<open>lag_days\<close> entry \<^verbatim>\<open>generate_dashboard_data_json\<close> writes for an adoption:
  a number, or \<^verbatim>\<open>None\<close>.\<close>

definition dashboard_lag_days :: "releases \<Rightarrow> adoption \<Rightarrow> int option" where
  "dashboard_lag_days rel a =
     (case map_of rel (version a) of
        None \<Rightarrow> None
      | Some r \<Rightarrow> Some (timedelta_days (adoption_date a) (date r)))"

section \<open>What the specification says of the records, for comparison with the loops\<close>

text \<open>The metrics entry of the adoption record at index \<open>i\<close>, as the specification
  describes it per record: present when the adopted version is a known release; its
  skip count and its interval are there from the second record on.\<close>

definition version_info_at :: "releases \<Rightarrow> adoption list \<Rightarrow> nat \<Rightarrow> version_info option" where
  "version_info_at rel adoptions i =
     (if i < length adoptions
      then (case map_of rel (version (adoptions ! i)) of
              None \<Rightarrow> None
            | Some r \<Rightarrow>
                Some \<lparr>vi_version = version (adoptions ! i), vi_release_date = date r,
                      vi_adoption_date = adoption_date (adoptions ! i),
                      lag_days = timedelta_days (adoption_date (adoptions ! i)) (date r),
                      vi_commit = commit (adoptions ! i),
                      versions_skipped =
                        (if i > 0
                         then Some (count_versions_between rel
                                      (version (adoptions ! (i - 1))) (version (adoptions ! i)))
                         else None),
                      days_since_last_update =
                        (if i > 0
                         then Some (timedelta_days (adoption_date (adoptions ! i))
                                      (adoption_date (adoptions ! (i - 1))))
                         else None)\<rparr>)
      else None)"

text \<open>The entries of a list strictly between two positions.\<close>

definition strictly_between :: "'a list \<Rightarrow> nat \<Rightarrow> nat \<Rightarrow> 'a list" where
  "strictly_between xs i j = map (\<lambda>k. xs ! k) [Suc (min i j) ..< max i j]"

text \<open>The metrics entries of the first \<open>n\<close> adoption records.\<close>

definition infos_upto :: "releases \<Rightarrow> adoption list \<Rightarrow> nat \<Rightarrow> version_info list" where
  "infos_upto rel adoptions n = List.map_filter (version_info_at rel adoptions) [0..<n]"

section \<open>What the specification says of the change detector\<close>

text \<open>The snapshots the detector resolves, one for every commit whose manifest is there
  (truthy) and resolves, in order, each with its commit.\<close>

definition parsed_commit :: "string \<Rightarrow> git_commit \<Rightarrow> (git_commit \<times> versions) list" where
  "parsed_commit package_name c =
     (let package_json = get_package_json_at_commit (gc_manifest c)
      in if truthy package_json
         then (case extract_component_versions package_name package_json of
                 Inl e \<Rightarrow> []
               | Inr v \<Rightarrow> [(c, v)])
         else [])"

definition parsed_commits :: "string \<Rightarrow> git_commit list \<Rightarrow> (git_commit \<times> versions) list" where
  "parsed_commits package_name cs = concat (map (parsed_commit package_name) cs)"

text \<open>A record is due at a snapshot when some constituent differs from the previous
  snapshot and the effective version differs from the previous effective version.\<close>

definition is_transition :: "versions \<Rightarrow> versions \<Rightarrow> bool" where
  "is_transition previous v =
     (versions_changed v previous \<and> py_ne (effective_of v) (effective_of previous))"

text \<open>The transitions of a sequence of snapshots: the previous snapshot is the snapshot
  before, whether or not that one was a transition.\<close>

fun transitions ::
  "versions \<Rightarrow> (git_commit \<times> versions) list \<Rightarrow> (versions \<times> git_commit \<times> versions) list" where
  "transitions previous [] = []"
| "transitions previous ((c, v) # rest) =
     (if is_transition previous v
      then (previous, c, v) # transitions v rest
      else transitions v rest)"

text \<open>The record of a transition, for each of the two trackers.\<close>

definition emitted_for :: "string \<Rightarrow> change_record \<Rightarrow> versions \<times> git_commit \<times> versions \<Rightarrow> bool" where
  "emitted_for name r t =
     (case t of (previous, c, v) \<Rightarrow>
        (case get_commit_info (gc_info c) of
           Inl e \<Rightarrow> False
         | Inr info \<Rightarrow>
             r = \<lparr>cr_repository = name,
                  cr_commit = take 8 (ci_hash info),
                  cr_date = ci_date info,
                  cr_author = ci_author_name info,
                  cr_message = take 80 (ci_message info),
                  cr_dependency_version = dependency v,
                  cr_override_version = override v,
                  cr_transitive_overrides = transitive_overrides v,
                  cr_effective_version = effective_of v,
                  cr_previous_effective = effective_of previous\<rparr>))"

definition emitted_for1 :: "change_record1 \<Rightarrow> versions \<times> git_commit \<times> versions \<Rightarrow> bool" where
  "emitted_for1 r t =
     (case t of (previous, c, v) \<Rightarrow>
        (case get_commit_info (gc_info c) of
           Inl e \<Rightarrow> False
         | Inr info \<Rightarrow>
             r = \<lparr>c1_commit = take 8 (ci_hash info),
                  c1_date = ci_date info,
                  c1_author = ci_author_name info,
                  c1_message = take 80 (ci_message info),
                  c1_dependency_version = dependency v,
                  c1_override_version = override v,
                  c1_effective_version = effective_of v,
                  c1_previous_effective = effective_of previous\<rparr>))"

text \<open>A commit the detector can read: its metadata is there, and its manifest, when
  present, resolves.\<close>

definition commit_readable :: "string \<Rightarrow> git_commit \<Rightarrow> bool" where
  "commit_readable package_name c =
     ((case get_commit_info (gc_info c) of Inl e \<Rightarrow> False | Inr info \<Rightarrow> True) \<and>
      (let package_json = get_package_json_at_commit (gc_manifest c)
       in if truthy package_json
          then (case extract_component_versions package_name package_json of
                  Inl e \<Rightarrow> False
                | Inr v \<Rightarrow> True)
          else True))"

text \<open>A version value of a manifest that follows the schema: a string, or none.\<close>

fun string_or_none :: "json \<Rightarrow> bool" where
  "string_or_none JNull = True"
| "string_or_none (JStr s) = True"
| "string_or_none j = False"

text \<open>Pairs (previous, new) that follow one another from a start value, up to \<^verbatim>\<open>==\<close>.\<close>

fun chain_from :: "json \<Rightarrow> (json \<times> json) list \<Rightarrow> bool" where
  "chain_from e [] = True"
| "chain_from e ((a, b) # rest) = (py_eq a e \<and> chain_from b rest)"

section \<open>What the specification says of the adoption records\<close>

text \<open>The version the analyzer resolves at a log entry (\<^verbatim>\<open>None\<close> where resolution
  raises), and the values of a sequence of resolved versions that make an adoption record:
  a value makes one when it is truthy and differs from the value of the last record.\<close>

definition resolved_version :: "string \<Rightarrow> log_entry \<Rightarrow> json" where
  "resolved_version package_name e =
     (case get_version_at_commit package_name (le_manifest e) of
        Inl err \<Rightarrow> JNull
      | Inr v \<Rightarrow> v)"

fun raw_changes :: "json \<Rightarrow> json list \<Rightarrow> json list" where
  "raw_changes last_version [] = []"
| "raw_changes last_version (v # vs) =
     (if truthy v \<and> py_ne v last_version
      then v # raw_changes v vs
      else raw_changes last_version vs)"

section \<open>Well-formed manifests\<close>

text \<open>A manifest in which \<^verbatim>\<open>dependencies\<close>, \<^verbatim>\<open>devDependencies\<close>, \<^verbatim>\<open>pnpm\<close> and
  \<^verbatim>\<open>pnpm.overrides\<close> are objects where they are present; the entries of such a section
  (none when it is missing), and the value of a key in it (\<^verbatim>\<open>None\<close> when missing).\<close>

definition object_or_missing :: "string \<Rightarrow> (string \<times> json) list \<Rightarrow> bool" where
  "object_or_missing k kvs =
     (case map_of kvs k of None \<Rightarrow> True | Some (JObj es) \<Rightarrow> True | Some other \<Rightarrow> False)"

definition well_formed_manifest :: "json \<Rightarrow> bool" where
  "well_formed_manifest j =
     (case j of
        JObj kvs \<Rightarrow>
          object_or_missing ''dependencies'' kvs \<and>
          object_or_missing ''devDependencies'' kvs \<and>
          (case map_of kvs ''pnpm'' of
             None \<Rightarrow> True
           | Some (JObj ps) \<Rightarrow> object_or_missing ''overrides'' ps
           | Some other \<Rightarrow> False)
      | other \<Rightarrow> False)"

definition section_entries :: "string \<Rightarrow> (string \<times> json) list \<Rightarrow> (string \<times> json) list" where
  "section_entries k kvs = (case map_of kvs k of Some (JObj es) \<Rightarrow> es | other \<Rightarrow> [])"

definition overrides_entries :: "(string \<times> json) list \<Rightarrow> (string \<times> json) list" where
  "overrides_entries kvs = section_entries ''overrides'' (section_entries ''pnpm'' kvs)"

definition entry_of :: "(string \<times> json) list \<Rightarrow> string \<Rightarrow> json" where
  "entry_of es k = (case map_of es k of None \<Rightarrow> JNull | Some v \<Rightarrow> v)"

definition overrides_present :: "(string \<times> json) list \<Rightarrow> bool" where
  "overrides_present kvs =
     (case map_of kvs ''pnpm'' of
        Some (JObj ps) \<Rightarrow> map_of ps ''overrides'' \<noteq> None
      | other \<Rightarrow> False)"

text \<open>The tracked package has no entry in any section of the manifest.\<close>

definition package_missing :: "string \<Rightarrow> (string \<times> json) list \<Rightarrow> bool" where
  "package_missing pkg kvs =
     (map_of (section_entries ''dependencies'' kvs) pkg = None \<and>
      map_of (section_entries ''devDependencies'' kvs) pkg = None \<and>
      map_of (overrides_entries kvs) pkg = None \<and>
      filter (\<lambda>(key, value). is_transitive_key pkg key) (overrides_entries kvs) = [])"

section \<open>Example data\<close>

text \<open>The package name every script tracks by default.\<close>

definition default_package_name :: string where
  "default_package_name = ''@transferwise/components''"

text \<open>The lag example of the specification: a release of 2024-01-01 adopted on
  2024-01-15, followed by the adoption of a version that is no known release.\<close>

definition lag_example_releases :: releases where
  "lag_example_releases = load_releases [(''4.2.0'', mk_datetime 2024 1 1 0 0 0)]"

definition lag_example_adoptions :: "adoption list" where
  "lag_example_adoptions =
     [\<lparr>version = ''4.2.0'', raw_version = ''^4.2.0'',
       adoption_date = mk_datetime 2024 1 15 0 0 0, commit = ''0a1b2c3d''\<rparr>,
      \<lparr>version = ''9.9.9'', raw_version = ''9.9.9'',
       adoption_date = mk_datetime 2024 2 1 0 0 0, commit = ''4e5f6a7b''\<rparr>]"

text \<open>The skip example of the specification: releases 1.0.0 to 1.3.0, loaded in some
  other order, and a repository that goes from 1.0.0 to 1.3.0; and a repository that goes
  from 1.0.0 to a version that is no known release.\<close>

definition skip_example_releases :: releases where
  "skip_example_releases =
     load_releases [(''1.2.0'', mk_datetime 2024 3 1 0 0 0), (''1.0.0'', mk_datetime 2024 1 1 0 0 0),
                    (''1.3.0'', mk_datetime 2024 4 1 0 0 0), (''1.1.0'', mk_datetime 2024 2 1 0 0 0)]"

definition skip_example_adoptions :: "adoption list" where
  "skip_example_adoptions =
     [\<lparr>version = ''1.0.0'', raw_version = ''1.0.0'',
       adoption_date = mk_datetime 2024 1 10 0 0 0, commit = ''0a1b2c3d''\<rparr>,
      \<lparr>version = ''1.3.0'', raw_version = ''1.3.0'',
       adoption_date = mk_datetime 2024 4 10 0 0 0, commit = ''4e5f6a7b''\<rparr>]"

definition unknown_example_adoptions :: "adoption list" where
  "unknown_example_adoptions =
     [\<lparr>version = ''1.0.0'', raw_version = ''1.0.0'',
       adoption_date = mk_datetime 2024 1 10 0 0 0, commit = ''0a1b2c3d''\<rparr>,
      \<lparr>version = ''9.9.9'', raw_version = ''9.9.9'',
       adoption_date = mk_datetime 2024 4 10 0 0 0, commit = ''4e5f6a7b''\<rparr>]"

text \<open>A repository whose manifest goes from \<^verbatim>\<open>^1.0.0\<close> to \<^verbatim>\<open>1.0.0\<close>: the log the
  analyzer reads, the adoptions it makes of it, and a release table that knows 1.0.0.\<close>

definition prefix_edit_log :: "log_entry list" where
  "prefix_edit_log =
     [\<lparr>le_hash = ''1111111111111111'', le_date = mk_datetime 2024 1 15 10 0 0,
       le_manifest = Document (JObj [(''dependencies'',
                       JObj [(''@transferwise/components'', JStr ''^1.0.0'')])])\<rparr>,
      \<lparr>le_hash = ''2222222222222222'', le_date = mk_datetime 2024 2 20 10 0 0,
       le_manifest = Document (JObj [(''dependencies'',
                       JObj [(''@transferwise/components'', JStr ''1.0.0'')])])\<rparr>]"

definition prefix_edit_adoptions :: "adoption list" where
  "prefix_edit_adoptions =
     [\<lparr>version = ''1.0.0'', raw_version = ''^1.0.0'',
       adoption_date = mk_datetime 2024 1 15 10 0 0, commit = ''11111111''\<rparr>,
      \<lparr>version = ''1.0.0'', raw_version = ''1.0.0'',
       adoption_date = mk_datetime 2024 2 20 10 0 0, commit = ''22222222''\<rparr>]"

definition prefix_edit_releases :: releases where
  "prefix_edit_releases =
     load_releases [(''0.9.0'', mk_datetime 2023 12 1 0 0 0), (''1.0.0'', mk_datetime 2024 1 1 0 0 0)]"

text \<open>Manifests: one with a direct dependency and a direct override of the tracked
  package, one whose \<^verbatim>\<open>dependencies\<close> entry is \<^verbatim>\<open>null\<close>, and one that does not mention
  the package.\<close>

definition override_and_dependency_manifest :: json where
  "override_and_dependency_manifest =
     JObj [(''name'', JStr ''account-page''),
           (''dependencies'', JObj [(''@transferwise/components'', JStr ''1.0.0'')]),
           (''pnpm'', JObj [(''overrides'',
              JObj [(''@transferwise/components'', JStr ''2.0.0'')])])]"

definition null_dependencies_manifest :: json where
  "null_dependencies_manifest = JObj [(''name'', JStr ''account-page''), (''dependencies'', JNull)]"

definition plain_manifest :: json where
  "plain_manifest =
     JObj [(''name'', JStr ''account-page''), (''dependencies'', JObj [(''react'', JStr ''^18.2.0'')])]"

text \<open>Histories for the change detector. In the first, the second commit removes the
  override and bumps the dependency to the value the override had.\<close>

definition example_info :: "string \<Rightarrow> show_info" where
  "example_info h =
     InfoLines [h, ''2024-03-01 12:00:00 +0000'', ''Dev'', ''dev@example.com'',
                ''bump components'']"

definition dependency_manifest :: "string \<Rightarrow> json" where
  "dependency_manifest v =
     JObj [(''name'', JStr ''account-page''),
           (''dependencies'', JObj [(''@transferwise/components'', JStr v)])]"

definition cancel_out_history :: "git_commit list" where
  "cancel_out_history =
     [\<lparr>gc_manifest = Document override_and_dependency_manifest,
       gc_info = example_info ''1111111111111111''\<rparr>,
      \<lparr>gc_manifest = Document (dependency_manifest ''2.0.0''),
       gc_info = example_info ''2222222222222222''\<rparr>,
      \<lparr>gc_manifest = Document (dependency_manifest ''3.0.0''),
       gc_info = example_info ''3333333333333333''\<rparr>]"

definition bump_history :: "git_commit list" where
  "bump_history =
     [\<lparr>gc_manifest = Document (dependency_manifest ''^1.0.0''),
       gc_info = example_info ''1111111111111111''\<rparr>,
      \<lparr>gc_manifest = Unparsable,
       gc_info = example_info ''2222222222222222''\<rparr>,
      \<lparr>gc_manifest = Document (dependency_manifest ''^1.0.0''),
       gc_info = example_info ''3333333333333333''\<rparr>,
      \<lparr>gc_manifest = Document (dependency_manifest ''^1.1.0''),
       gc_info = example_info ''4444444444444444''\<rparr>,
      \<lparr>gc_manifest = Document (dependency_manifest ''^2.0.0''),
       gc_info = example_info ''5555555555555555''\<rparr>]"

text \<open>The same prefix-only edit as the trackers' history.\<close>

definition prefix_edit_history :: "git_commit list" where
  "prefix_edit_history =
     [\<lparr>gc_manifest = Document (dependency_manifest ''^1.0.0''),
       gc_info = example_info ''1111111111111111''\<rparr>,
      \<lparr>gc_manifest = Document (dependency_manifest ''1.0.0''),
       gc_info = example_info ''2222222222222222''\<rparr>]"

text \<open>Repositories: two clones of different paths that share a directory name, one
  whose working copy holds a \<^verbatim>\<open>package.json\<close> that is not JSON, one that is in order,
  and one whose \<^verbatim>\<open>git log\<close> fails.\<close>

definition same_name_repo_a :: repo where
  "same_name_repo_a =
     \<lparr>repo_name = ''web'', repo_path = ''/code/team-a/web'',
      repo_log = LogCommits [], repo_worktree = GoodFile (dependency_manifest ''1.0.0'')\<rparr>"

definition same_name_repo_b :: repo where
  "same_name_repo_b =
     \<lparr>repo_name = ''web'', repo_path = ''/code/team-b/web'',
      repo_log = LogCommits [], repo_worktree = GoodFile (dependency_manifest ''2.0.0'')\<rparr>"

definition broken_worktree_repo :: repo where
  "broken_worktree_repo =
     \<lparr>repo_name = ''account-page'', repo_path = ''/code/account-page'',
      repo_log = LogCommits bump_history, repo_worktree = BadFile\<rparr>"

definition healthy_repo :: repo where
  "healthy_repo =
     \<lparr>repo_name = ''send-flow'', repo_path = ''/code/send-flow'',
      repo_log = LogCommits cancel_out_history,
      repo_worktree = GoodFile (dependency_manifest ''3.0.0'')\<rparr>"

definition unreadable_repo :: repo where
  "unreadable_repo =
     \<lparr>repo_name = ''bills-page'', repo_path = ''/code/bills-page'',
      repo_log = LogFailed ''git log failed'', repo_worktree = NoFile\<rparr>"

text \<open>A history whose second commit holds an empty document, \<^verbatim>\<open>{}\<close>.\<close>

definition empty_manifest_history :: "git_commit list" where
  "empty_manifest_history =
     [\<lparr>gc_manifest = Document (dependency_manifest ''1.0.0''),
       gc_info = example_info ''1111111111111111''\<rparr>,
      \<lparr>gc_manifest = Document (JObj []),
       gc_info = example_info ''2222222222222222''\<rparr>,
      \<lparr>gc_manifest = Document (dependency_manifest ''1.0.0''),
       gc_info = example_info ''3333333333333333''\<rparr>]"

text \<open>The transitive-override example of the specification, for a package named
  \<^verbatim>\<open>widgets\<close>, and its end-to-end scenario: repository A adopts 1.0.0 on its release
  day and 2.0.0 ten days after its release, repository B adopts 2.0.0 five days after.\<close>

definition widgets_manifest :: json where
  "widgets_manifest =
     JObj [(''name'', JStr ''account-page''),
           (''dependencies'', JObj [(''widgets'', JStr ''1.0.0'')]),
           (''pnpm'', JObj [(''overrides'',
              JObj [(''pkgA>widgets'', JStr ''2.0.0''), (''pkgB>widgets'', JStr ''3.0.0'')])])]"

definition scenario_releases :: releases where
  "scenario_releases =
     load_releases [(''1.0.0'', mk_datetime 2024 1 1 0 0 0), (''2.0.0'', mk_datetime 2024 1 21 0 0 0)]"

definition scenario_adoptions_a :: "adoption list" where
  "scenario_adoptions_a =
     [\<lparr>version = ''1.0.0'', raw_version = ''1.0.0'',
       adoption_date = mk_datetime 2024 1 1 0 0 0, commit = ''0a1b2c3d''\<rparr>,
      \<lparr>version = ''2.0.0'', raw_version = ''2.0.0'',
       adoption_date = mk_datetime 2024 1 31 0 0 0, commit = ''4e5f6a7b''\<rparr>]"

definition scenario_adoptions_b :: "adoption list" where
  "scenario_adoptions_b =
     [\<lparr>version = ''2.0.0'', raw_version = ''2.0.0'',
       adoption_date = mk_datetime 2024 1 26 0 0 0, commit = ''8c9d0e1f''\<rparr>]"

section \<open>Properties\<close>

lemma sort_key_Nil_iff: "sort_key f xs = [] \<longleftrightarrow> xs = []"
  by (metis length_0_conv length_sort)

lemma truthy_canon: "truthy (canon j) = truthy j"
  by (cases j) (auto simp: sort_key_Nil_iff)

subsection \<open>The resolvers on well-formed manifests\<close>

lemma bindE_Inr: "bindE (Inr x) f = f x"
  by (simp add: bindE_def)

lemma bindE_Inl: "bindE (Inl e) f = Inl e"
  by (simp add: bindE_def)

lemma py_contains_obj: "py_contains k (JObj kvs) = Inr (map_of kvs k \<noteq> None)"
  by (simp add: map_of_eq_None_iff)

lemma section_get:
  assumes "object_or_missing k kvs"
  shows "(if map_of kvs k \<noteq> None
          then bindE (py_getitem (JObj kvs) k) (\<lambda>d. py_get d name) else Inr dflt) =
         Inr (if map_of kvs k \<noteq> None then entry_of (section_entries k kvs) name else dflt)"
  using assms
  by (auto simp: object_or_missing_def bindE_def section_entries_def entry_of_def
      split: option.splits json.splits)

lemma extract_well_formed:
  assumes "well_formed_manifest (JObj kvs)"
  shows "extract_component_versions pkg (JObj kvs) =
     Inr \<lparr>dependency =
            (let d = entry_of (section_entries ''dependencies'' kvs) pkg
             in if \<not> truthy d \<and> map_of kvs ''devDependencies'' \<noteq> None
                then entry_of (section_entries ''devDependencies'' kvs) pkg else d),
          override = entry_of (overrides_entries kvs) pkg,
          transitive_overrides = transitive_of pkg (overrides_entries kvs)\<rparr>"
proof -
  have deps: "object_or_missing ''dependencies'' kvs"
    and dev: "object_or_missing ''devDependencies'' kvs"
    using assms by (simp_all add: well_formed_manifest_def)
  have d0: "entry_of (section_entries ''dependencies'' kvs) pkg = JNull"
    if "map_of kvs ''dependencies'' = None"
    using that by (simp add: section_entries_def entry_of_def)
  have step1: "(if map_of kvs ''dependencies'' \<noteq> None
          then bindE (py_getitem (JObj kvs) ''dependencies'') (\<lambda>d. py_get d pkg) else Inr JNull) =
         Inr (entry_of (section_entries ''dependencies'' kvs) pkg)"
    using section_get [OF deps, of pkg JNull] d0 by auto
  have step2: "(if use_dev
          then bindE (py_getitem (JObj kvs) ''devDependencies'') (\<lambda>d. py_get d pkg) else Inr d1) =
         Inr (if use_dev then entry_of (section_entries ''devDependencies'' kvs) pkg else d1)"
    if "use_dev \<longrightarrow> map_of kvs ''devDependencies'' \<noteq> None" for use_dev d1
    using section_get [OF dev, of pkg d1] that by auto
  have pnpm: "(case map_of kvs ''pnpm'' of
             None \<Rightarrow> True
           | Some (JObj ps) \<Rightarrow> object_or_missing ''overrides'' ps
           | Some other \<Rightarrow> False)"
    using assms by (simp add: well_formed_manifest_def)
  show ?thesis
  proof (cases "map_of kvs ''pnpm''")
    case None
    then have ov: "overrides_entries kvs = []"
      by (simp add: overrides_entries_def section_entries_def)
    show ?thesis
      unfolding extract_component_versions_def py_contains_obj bindE_Inr step1
      by (simp add: bindE_Inr step2 None ov Let_def entry_of_def transitive_of_def)
  next
    case (Some p)
    then obtain ps where p: "p = JObj ps" and ovs: "object_or_missing ''overrides'' ps"
      using pnpm by (auto split: json.splits)
    have sec: "section_entries ''pnpm'' kvs = ps"
      using Some p by (simp add: section_entries_def)
    show ?thesis
    proof (cases "map_of ps ''overrides''")
      case None
      then have ov: "overrides_entries kvs = []"
        unfolding overrides_entries_def sec by (simp add: section_entries_def)
      show ?thesis
        unfolding extract_component_versions_def py_contains_obj bindE_Inr step1
        by (simp add: bindE_Inr step2 Some p None ov Let_def entry_of_def transitive_of_def
            py_contains_obj del: py_contains.simps)
    next
      case (Some os)
      then obtain es where os: "os = JObj es"
        using ovs by (auto simp: object_or_missing_def split: json.splits)
      have ov: "overrides_entries kvs = es"
        unfolding overrides_entries_def sec using Some os by (simp add: section_entries_def)
      show ?thesis
        unfolding extract_component_versions_def py_contains_obj bindE_Inr step1
        using \<open>map_of kvs ''pnpm'' = Some p\<close>
        by (simp add: bindE_Inr step2 p Some os ov Let_def entry_of_def
            py_contains_obj del: py_contains.simps split: option.splits)
    qed
  qed
qed

lemma get_version_well_formed:
  assumes "well_formed_manifest (JObj kvs)"
  shows "get_version_at_commit pkg (Document (JObj kvs)) =
     Inr (let d = entry_of (section_entries ''dependencies'' kvs) pkg
          in if truthy d then d
             else if overrides_present kvs
             then (let ov = entry_of (overrides_entries kvs) pkg
                   in if truthy ov then ov
                      else first_transitive pkg (overrides_entries kvs) ov)
             else d)"
proof -
  have deps: "object_or_missing ''dependencies'' kvs"
    using assms by (simp add: well_formed_manifest_def)
  have d0: "entry_of (section_entries ''dependencies'' kvs) pkg = JNull"
    if "map_of kvs ''dependencies'' = None"
    using that by (simp add: section_entries_def entry_of_def)
  have step1: "(if map_of kvs ''dependencies'' \<noteq> None
          then bindE (py_getitem (JObj kvs) ''dependencies'') (\<lambda>d. py_get d pkg) else Inr JNull) =
         Inr (entry_of (section_entries ''dependencies'' kvs) pkg)"
    using section_get [OF deps, of pkg JNull] d0 by auto
  have pnpm: "(case map_of kvs ''pnpm'' of
             None \<Rightarrow> True
           | Some (JObj ps) \<Rightarrow> object_or_missing ''overrides'' ps
           | Some other \<Rightarrow> False)"
    using assms by (simp add: well_formed_manifest_def)
  show ?thesis
  proof (cases "map_of kvs ''pnpm''")
    case None
    then have np: "\<not> overrides_present kvs"
      by (simp add: overrides_present_def)
    show ?thesis
      unfolding get_version_at_commit_def manifest_at.case py_contains_obj bindE_Inr step1
      by (simp add: bindE_Inr None np Let_def)
  next
    case (Some p)
    then obtain ps where p: "p = JObj ps" and ovs: "object_or_missing ''overrides'' ps"
      using pnpm by (auto split: json.splits)
    have sec: "section_entries ''pnpm'' kvs = ps"
      using Some p by (simp add: section_entries_def)
    show ?thesis
    proof (cases "map_of ps ''overrides''")
      case None
      then have np: "\<not> overrides_present kvs"
        using \<open>map_of kvs ''pnpm'' = Some p\<close> p by (simp add: overrides_present_def)
      show ?thesis
        unfolding get_version_at_commit_def manifest_at.case py_contains_obj bindE_Inr step1
        by (simp add: bindE_Inr Some p None np Let_def py_contains_obj del: py_contains.simps)
    next
      case (Some os)
      then obtain es where os: "os = JObj es"
        using ovs by (auto simp: object_or_missing_def split: json.splits)
      have ov: "overrides_entries kvs = es"
        unfolding overrides_entries_def sec using Some os by (simp add: section_entries_def)
      have pr: "overrides_present kvs"
        using \<open>map_of kvs ''pnpm'' = Some p\<close> p Some by (simp add: overrides_present_def)
      show ?thesis
        unfolding get_version_at_commit_def manifest_at.case py_contains_obj bindE_Inr step1
        using \<open>map_of kvs ''pnpm'' = Some p\<close>
        by (simp add: bindE_Inr p Some os ov pr Let_def entry_of_def
            py_contains_obj del: py_contains.simps split: option.splits)
    qed
  qed
qed

subsection \<open>The metrics loop, record by record\<close>

lemma metrics_step_at:
  assumes "i < length ads"
  shows "metrics_step rel ads (i, ads ! i) m =
     (case version_info_at rel ads i of
        None \<Rightarrow> m
      | Some info \<Rightarrow>
          m\<lparr>skip_counts := skip_counts m @ (case versions_skipped info of None \<Rightarrow> [] | Some s \<Rightarrow> [s]),
            update_intervals := update_intervals m @ (case days_since_last_update info of None \<Rightarrow> [] | Some s \<Rightarrow> [s]),
            m_versions := m_versions m @ [info],
            adoption_lags := adoption_lags m @ [lag_days info]\<rparr>)"
  using assms
  by (simp add: metrics_step_def version_info_at_def Let_def split: option.splits)

lemma map_filter_snoc:
  "List.map_filter f (xs @ [x]) = List.map_filter f xs @ (case f x of None \<Rightarrow> [] | Some y \<Rightarrow> [y])"
  by (simp add: List.map_filter_def split: option.splits)

lemma infos_upto_Suc:
  "infos_upto rel ads (Suc n) =
     infos_upto rel ads n @ (case version_info_at rel ads n of None \<Rightarrow> [] | Some y \<Rightarrow> [y])"
  by (simp add: infos_upto_def map_filter_snoc)

lemma enumerate_take_Suc:
  "n < length ads \<Longrightarrow> enumerate 0 (take (Suc n) ads) = enumerate 0 (take n ads) @ [(n, ads ! n)]"
  by (simp add: take_Suc_conv_app_nth enumerate_append_eq)

lemma metrics_fold_take:
  "n \<le> length ads \<Longrightarrow>
     fold (metrics_step rel ads) (enumerate 0 (take n ads)) m0 =
       m0\<lparr>skip_counts := skip_counts m0 @ List.map_filter versions_skipped (infos_upto rel ads n),
          update_intervals := update_intervals m0 @ List.map_filter days_since_last_update (infos_upto rel ads n),
          m_versions := m_versions m0 @ infos_upto rel ads n,
          adoption_lags := adoption_lags m0 @ map lag_days (infos_upto rel ads n)\<rparr>"
proof (induction n)
  case 0
  then show ?case by (simp add: infos_upto_def List.map_filter_def)
next
  case (Suc n)
  then have n: "n < length ads" and le: "n \<le> length ads" by simp_all
  show ?case
    by (cases "version_info_at rel ads n")
       (simp_all add: enumerate_take_Suc [OF n] Suc.IH [OF le] metrics_step_at [OF n]
          infos_upto_Suc map_filter_snoc split: option.splits)
qed

lemma metrics_loop:
  "fold (metrics_step rel ads) (enumerate 0 ads) (initial_metrics ads) =
     (initial_metrics ads)
       \<lparr>skip_counts := List.map_filter versions_skipped (infos_upto rel ads (length ads)),
        update_intervals := List.map_filter days_since_last_update (infos_upto rel ads (length ads)),
        m_versions := infos_upto rel ads (length ads),
        adoption_lags := map lag_days (infos_upto rel ads (length ads))\<rparr>"
  using metrics_fold_take [of "length ads" ads rel "initial_metrics ads"]
  by (simp add: initial_metrics_def)

lemma finish_metrics_fields:
  "m_versions (finish_metrics m) = m_versions m"
  "adoption_lags (finish_metrics m) = adoption_lags m"
  "skip_counts (finish_metrics m) = skip_counts m"
  "update_intervals (finish_metrics m) = update_intervals m"
  "total_updates (finish_metrics m) = total_updates m"
  by (simp_all add: finish_metrics_def Let_def split: list.splits)

lemma finish_metrics_lag_stats:
  "avg_lag_days (finish_metrics m) =
     (if adoption_lags m = [] then avg_lag_days m else Some (mean (adoption_lags m)))"
  "median_lag_days (finish_metrics m) =
     (if adoption_lags m = [] then median_lag_days m else Some (median (adoption_lags m)))"
  "min_lag_days (finish_metrics m) =
     (if adoption_lags m = [] then min_lag_days m
      else Some (fold min (tl (adoption_lags m)) (hd (adoption_lags m))))"
  "max_lag_days (finish_metrics m) =
     (if adoption_lags m = [] then max_lag_days m
      else Some (fold max (tl (adoption_lags m)) (hd (adoption_lags m))))"
  "avg_versions_skipped (finish_metrics m) =
     (if skip_counts m = [] then avg_versions_skipped m else Some (mean (skip_counts m)))"
  by (simp_all add: finish_metrics_def Let_def split: list.splits)

lemma repo_metrics_of_lists:
  "m_versions (repo_metrics_of rel ads) = infos_upto rel ads (length ads)"
  "adoption_lags (repo_metrics_of rel ads) = map lag_days (infos_upto rel ads (length ads))"
  "skip_counts (repo_metrics_of rel ads) =
     List.map_filter versions_skipped (infos_upto rel ads (length ads))"
  "total_updates (repo_metrics_of rel ads) = length ads"
  unfolding repo_metrics_of_def finish_metrics_fields metrics_loop
  by (simp_all add: initial_metrics_def)

lemma index_of_None: "index_of xs x = None \<longleftrightarrow> x \<notin> set xs"
  by (induction xs) auto

lemma index_of_Some: "index_of xs x = Some i \<Longrightarrow> i < length xs \<and> xs ! i = x"
  by (induction xs arbitrary: i) (auto split: if_splits)

lemma set_all_versions: "set (all_versions rel) = fst ` set rel"
  by (simp add: all_versions_def)

lemma map_of_None_keys: "map_of rel v = None \<longleftrightarrow> v \<notin> fst ` set rel"
  by (simp add: map_of_eq_None_iff)

lemma index_of_unknown:
  "map_of rel v = None \<Longrightarrow> index_of (all_versions rel) v = None"
  by (simp add: index_of_None set_all_versions map_of_None_keys)

lemma count_unknown_first:
  "map_of rel v1 = None \<Longrightarrow> count_versions_between rel v1 v2 = 0"
  by (simp add: count_versions_between_def index_of_unknown)

lemma count_unknown_second:
  "map_of rel v2 = None \<Longrightarrow> count_versions_between rel v1 v2 = 0"
  by (simp add: count_versions_between_def index_of_unknown split: option.splits)

lemma index_of_known:
  "map_of rel v = Some r \<Longrightarrow> \<exists>p. index_of (all_versions rel) v = Some p"
proof -
  assume "map_of rel v = Some r"
  then have "v \<in> set (all_versions rel)"
    by (metis map_of_None_keys option.distinct(1) set_all_versions)
  then show ?thesis
    by (metis index_of_None option.exhaust)
qed

lemma count_same_version:
  "map_of rel v = Some r \<Longrightarrow> count_versions_between rel v v = - 1"
  using index_of_known [of rel v r] by (auto simp: count_versions_between_def)

lemma length_strictly_between:
  "p \<noteq> q \<Longrightarrow> int (length (strictly_between xs p q)) = \<bar>int q - int p\<bar> - 1"
  by (auto simp: strictly_between_def min_def max_def)

lemma count_distinct_known:
  assumes "map_of rel v1 = Some r1" "map_of rel v2 = Some r2" "v1 \<noteq> v2"
  shows "\<exists>p q. index_of (all_versions rel) v1 = Some p \<and> index_of (all_versions rel) v2 = Some q \<and>
           p \<noteq> q \<and>
           count_versions_between rel v1 v2 = \<bar>int q - int p\<bar> - 1 \<and>
           count_versions_between rel v1 v2 = int (length (strictly_between (all_versions rel) p q))"
proof -
  obtain p where p: "index_of (all_versions rel) v1 = Some p"
    using index_of_known [OF assms(1)] by blast
  obtain q where q: "index_of (all_versions rel) v2 = Some q"
    using index_of_known [OF assms(2)] by blast
  have "p \<noteq> q"
    using index_of_Some [OF p] index_of_Some [OF q] assms(3) by auto
  then show ?thesis
    using p q by (simp add: count_versions_between_def length_strictly_between)
qed

lemma all_versions_sorted: "sorted (map parse_version (all_versions rel))"
  by (simp add: all_versions_def)

lemma version_info_at_known:
  assumes "i < length ads" "map_of rel (version (ads ! i)) = Some r"
  shows "\<exists>info. version_info_at rel ads i = Some info \<and>
           vi_version info = version (ads ! i) \<and>
           lag_days info = timedelta_days (adoption_date (ads ! i)) (date r) \<and>
           versions_skipped info =
             (if 0 < i then Some (count_versions_between rel (version (ads ! (i - 1))) (version (ads ! i)))
              else None)"
  using assms by (simp add: version_info_at_def)

lemma version_info_at_unknown:
  "map_of rel (version (ads ! i)) = None \<Longrightarrow> version_info_at rel ads i = None"
  by (simp add: version_info_at_def)

lemma lag_of_info:
  "i < length ads \<Longrightarrow>
     map_option lag_days (version_info_at rel ads i) = dashboard_lag_days rel (ads ! i)"
  by (simp add: version_info_at_def dashboard_lag_days_def split: option.splits)

lemma map_filter_map_option:
  "map h (List.map_filter f xs) = List.map_filter (\<lambda>x. map_option h (f x)) xs"
  by (induction xs) (auto split: option.splits)

lemma map_filter_upt_nth:
  "n \<le> length xs \<Longrightarrow> List.map_filter (\<lambda>i. g (xs ! i)) [0..<n] = List.map_filter g (take n xs)"
proof (induction n)
  case 0
  then show ?case by simp
next
  case (Suc n)
  then show ?case
    by (simp add: take_Suc_conv_app_nth map_filter_snoc)
qed

lemma map_filter_cong_upt:
  "(\<And>i. i < n \<Longrightarrow> f i = g i) \<Longrightarrow> List.map_filter f [0..<n] = List.map_filter g [0..<n]"
  by (induction n) (simp_all add: map_filter_snoc)

lemma lags_of_infos:
  "map lag_days (infos_upto rel ads (length ads)) = List.map_filter (dashboard_lag_days rel) ads"
proof -
  have "map lag_days (infos_upto rel ads (length ads)) =
          List.map_filter (\<lambda>i. map_option lag_days (version_info_at rel ads i)) [0..<length ads]"
    by (simp add: infos_upto_def map_filter_map_option)
  also have "\<dots> = List.map_filter (\<lambda>i. dashboard_lag_days rel (ads ! i)) [0..<length ads]"
    by (rule map_filter_cong_upt) (simp add: lag_of_info)
  also have "\<dots> = List.map_filter (dashboard_lag_days rel) ads"
    using map_filter_upt_nth [of "length ads" ads "dashboard_lag_days rel"] by simp
  finally show ?thesis .
qed

subsection \<open>Lag\<close>

lemma fold_min_Min: "fold min xs (x::int) = Min (set (x # xs))"
  by (rule Min.set_eq_fold [symmetric])

lemma fold_max_Max: "fold max xs (x::int) = Max (set (x # xs))"
  by (rule Max.set_eq_fold [symmetric])

lemma repo_metrics_of_lag_stats:
  "avg_lag_days (repo_metrics_of rel ads) =
     (if adoption_lags (repo_metrics_of rel ads) = [] then None
      else Some (mean (adoption_lags (repo_metrics_of rel ads))))"
  "median_lag_days (repo_metrics_of rel ads) =
     (if adoption_lags (repo_metrics_of rel ads) = [] then None
      else Some (median (adoption_lags (repo_metrics_of rel ads))))"
  "min_lag_days (repo_metrics_of rel ads) =
     (if adoption_lags (repo_metrics_of rel ads) = [] then None
      else Some (Min (set (adoption_lags (repo_metrics_of rel ads)))))"
  "max_lag_days (repo_metrics_of rel ads) =
     (if adoption_lags (repo_metrics_of rel ads) = [] then None
      else Some (Max (set (adoption_lags (repo_metrics_of rel ads)))))"
  "avg_versions_skipped (repo_metrics_of rel ads) =
     (if skip_counts (repo_metrics_of rel ads) = [] then None
      else Some (mean (skip_counts (repo_metrics_of rel ads))))"
  unfolding repo_metrics_of_def finish_metrics_lag_stats finish_metrics_fields metrics_loop
  by (simp_all add: initial_metrics_def fold_min_Min fold_max_Max del: set_simps split: list.splits)

text \<open>
  Claim C3. An adoption record has a lag exactly when its version is a key of the release
  table: then the metrics entry of the record exists and its \<open>lag_days\<close> is the whole
  number of days from the release date to the adoption date, and the dashboard writes the
  same number; otherwise the record has no metrics entry and the dashboard writes
  \<^verbatim>\<open>None\<close>, not 0. The list the mean, median, minimum and maximum are taken of holds
  the lags of the records with a known version only, in order.
\<close>

theorem lag_days_only_for_known_release:
  "(\<forall>i<length ads.
      (case map_of rel (version (ads ! i)) of
         None \<Rightarrow>
           version_info_at rel ads i = None \<and> dashboard_lag_days rel (ads ! i) = None
       | Some r \<Rightarrow>
           (\<exists>info. version_info_at rel ads i = Some info \<and>
                   lag_days info = timedelta_days (adoption_date (ads ! i)) (date r)) \<and>
           dashboard_lag_days rel (ads ! i) =
             Some (timedelta_days (adoption_date (ads ! i)) (date r)))) \<and>
   m_versions (repo_metrics_of rel ads) =
     List.map_filter (version_info_at rel ads) [0..<length ads] \<and>
   adoption_lags (repo_metrics_of rel ads) = List.map_filter (dashboard_lag_days rel) ads \<and>
   (let lags = List.map_filter (dashboard_lag_days rel) ads in
      avg_lag_days (repo_metrics_of rel ads) = (if lags = [] then None else Some (mean lags)) \<and>
      median_lag_days (repo_metrics_of rel ads) = (if lags = [] then None else Some (median lags)) \<and>
      min_lag_days (repo_metrics_of rel ads) = (if lags = [] then None else Some (Min (set lags))) \<and>
      max_lag_days (repo_metrics_of rel ads) = (if lags = [] then None else Some (Max (set lags))))"
proof -
  have per_record: "\<forall>i<length ads.
      (case map_of rel (version (ads ! i)) of
         None \<Rightarrow>
           version_info_at rel ads i = None \<and> dashboard_lag_days rel (ads ! i) = None
       | Some r \<Rightarrow>
           (\<exists>info. version_info_at rel ads i = Some info \<and>
                   lag_days info = timedelta_days (adoption_date (ads ! i)) (date r)) \<and>
           dashboard_lag_days rel (ads ! i) =
             Some (timedelta_days (adoption_date (ads ! i)) (date r)))"
    by (simp add: version_info_at_def dashboard_lag_days_def split: option.splits)
  have entries: "m_versions (repo_metrics_of rel ads) =
      List.map_filter (version_info_at rel ads) [0..<length ads]"
    by (simp add: repo_metrics_of_lists infos_upto_def)
  have lags: "adoption_lags (repo_metrics_of rel ads) =
      List.map_filter (dashboard_lag_days rel) ads"
    by (simp add: repo_metrics_of_lists lags_of_infos)
  have stats: "let lags = List.map_filter (dashboard_lag_days rel) ads in
      avg_lag_days (repo_metrics_of rel ads) = (if lags = [] then None else Some (mean lags)) \<and>
      median_lag_days (repo_metrics_of rel ads) = (if lags = [] then None else Some (median lags)) \<and>
      min_lag_days (repo_metrics_of rel ads) = (if lags = [] then None else Some (Min (set lags))) \<and>
      max_lag_days (repo_metrics_of rel ads) = (if lags = [] then None else Some (Max (set lags)))"
    unfolding Let_def lags [symmetric] by (simp add: repo_metrics_of_lag_stats)
  from per_record entries lags stats show ?thesis by blast
qed

text \<open>The specification's example: released 2024-01-01, adopted 2024-01-15, lag 14;
  the second adoption, of an unknown version, adds nothing.\<close>

theorem lag_days_only_for_known_release_witness:
  "dashboard_lag_days lag_example_releases (lag_example_adoptions ! 0) = Some 14 \<and>
   dashboard_lag_days lag_example_releases (lag_example_adoptions ! 1) = None \<and>
   map lag_days (m_versions (repo_metrics_of lag_example_releases lag_example_adoptions)) = [14] \<and>
   adoption_lags (repo_metrics_of lag_example_releases lag_example_adoptions) = [14] \<and>
   avg_lag_days (repo_metrics_of lag_example_releases lag_example_adoptions) = Some 14 \<and>
   min_lag_days (repo_metrics_of lag_example_releases lag_example_adoptions) = Some 14 \<and>
   total_updates (repo_metrics_of lag_example_releases lag_example_adoptions) = 2"
proof -
  have a: "List.map_filter (dashboard_lag_days lag_example_releases) lag_example_adoptions = [14]"
    by code_simp
  have b: "dashboard_lag_days lag_example_releases (lag_example_adoptions ! 0) = Some 14"
    by code_simp
  have c: "dashboard_lag_days lag_example_releases (lag_example_adoptions ! 1) = None"
    by code_simp
  have d: "map lag_days (List.map_filter (version_info_at lag_example_releases lag_example_adoptions)
             [0..<length lag_example_adoptions]) = [14]"
    by code_simp
  have e: "mean [14] = 14" by (simp add: mean_def)
  have f: "total_updates (repo_metrics_of lag_example_releases lag_example_adoptions) = 2"
    by (simp add: repo_metrics_of_lists lag_example_adoptions_def)
  show ?thesis
    using lag_days_only_for_known_release [of lag_example_adoptions lag_example_releases]
      a b c d e f
    by (simp add: Let_def)
qed

subsection \<open>Skipped versions\<close>

text \<open>
  Claim C2 as stated fails where the current version is no known release: the claim puts
  \<open>versions_skipped = 0\<close> there, but the loop guards the whole entry by
  \<^verbatim>\<open>if version in self.releases\<close>, so the record gets no metrics entry, no
  \<open>versions_skipped\<close>, and adds nothing to the list the skip average is taken of.
\<close>

theorem versions_skipped_absent_for_unknown_version:
  "map_of skip_example_releases (version (unknown_example_adoptions ! 1)) = None \<and>
   version_info_at skip_example_releases unknown_example_adoptions 1 = None \<and>
   map versions_skipped
     (m_versions (repo_metrics_of skip_example_releases unknown_example_adoptions)) = [None] \<and>
   skip_counts (repo_metrics_of skip_example_releases unknown_example_adoptions) = [] \<and>
   avg_versions_skipped (repo_metrics_of skip_example_releases unknown_example_adoptions) = None"
  by code_simp

text \<open>
  Claim C2, amended. For two consecutive adoption records (\<open>0 < i\<close>): when the current
  version is no known release the record has no metrics entry; when it is one, the entry's
  \<open>versions_skipped\<close> is \<open>count_versions_between\<close> of the previous and the current
  version. That count is 0 when the previous version is unknown, and for two different
  known versions it is the distance of their positions minus one, which is the number of
  releases strictly between them in the list of all release keys sorted by
  \<open>parse_version\<close>. The skip counts of a repository are those of its metrics entries.
  (Two equal known versions are left out here.)
\<close>

theorem versions_skipped_between_known_versions:
  assumes "0 < i" and "i < length ads"
  shows
    "(case map_of rel (version (ads ! i)) of
        None \<Rightarrow> version_info_at rel ads i = None
      | Some r \<Rightarrow>
          (\<exists>info. version_info_at rel ads i = Some info \<and>
             versions_skipped info =
               Some (count_versions_between rel (version (ads ! (i - 1))) (version (ads ! i))))) \<and>
     (map_of rel (version (ads ! (i - 1))) = None \<longrightarrow>
        count_versions_between rel (version (ads ! (i - 1))) (version (ads ! i)) = 0) \<and>
     (map_of rel (version (ads ! (i - 1))) \<noteq> None \<and> map_of rel (version (ads ! i)) \<noteq> None \<and>
      version (ads ! (i - 1)) \<noteq> version (ads ! i) \<longrightarrow>
        (\<exists>p q. index_of (all_versions rel) (version (ads ! (i - 1))) = Some p \<and>
               index_of (all_versions rel) (version (ads ! i)) = Some q \<and>
               count_versions_between rel (version (ads ! (i - 1))) (version (ads ! i)) =
                 \<bar>int q - int p\<bar> - 1 \<and>
               count_versions_between rel (version (ads ! (i - 1))) (version (ads ! i)) =
                 int (length (strictly_between (all_versions rel) p q)))) \<and>
     sorted (map parse_version (all_versions rel)) \<and>
     set (all_versions rel) = fst ` set rel \<and>
     length (all_versions rel) = length rel \<and>
     m_versions (repo_metrics_of rel ads) =
       List.map_filter (version_info_at rel ads) [0..<length ads] \<and>
     skip_counts (repo_metrics_of rel ads) =
       List.map_filter versions_skipped (m_versions (repo_metrics_of rel ads))"
proof -
  have entry: "case map_of rel (version (ads ! i)) of
        None \<Rightarrow> version_info_at rel ads i = None
      | Some r \<Rightarrow>
          (\<exists>info. version_info_at rel ads i = Some info \<and>
             versions_skipped info =
               Some (count_versions_between rel (version (ads ! (i - 1))) (version (ads ! i))))"
    using assms by (simp add: version_info_at_def split: option.splits)
  have unknown: "map_of rel (version (ads ! (i - 1))) = None \<longrightarrow>
        count_versions_between rel (version (ads ! (i - 1))) (version (ads ! i)) = 0"
    by (simp add: count_unknown_first)
  have known: "map_of rel (version (ads ! (i - 1))) \<noteq> None \<and> map_of rel (version (ads ! i)) \<noteq> None \<and>
      version (ads ! (i - 1)) \<noteq> version (ads ! i) \<longrightarrow>
        (\<exists>p q. index_of (all_versions rel) (version (ads ! (i - 1))) = Some p \<and>
               index_of (all_versions rel) (version (ads ! i)) = Some q \<and>
               count_versions_between rel (version (ads ! (i - 1))) (version (ads ! i)) =
                 \<bar>int q - int p\<bar> - 1 \<and>
               count_versions_between rel (version (ads ! (i - 1))) (version (ads ! i)) =
                 int (length (strictly_between (all_versions rel) p q)))"
    using count_distinct_known [of rel "version (ads ! (i - 1))" _ "version (ads ! i)"]
    by blast
  have order: "sorted (map parse_version (all_versions rel)) \<and>
     set (all_versions rel) = fst ` set rel \<and> length (all_versions rel) = length rel"
    by (simp add: all_versions_sorted set_all_versions) (simp add: all_versions_def)
  have lists: "m_versions (repo_metrics_of rel ads) =
       List.map_filter (version_info_at rel ads) [0..<length ads] \<and>
     skip_counts (repo_metrics_of rel ads) =
       List.map_filter versions_skipped (m_versions (repo_metrics_of rel ads))"
    by (simp add: repo_metrics_of_lists infos_upto_def)
  from entry unknown known order lists show ?thesis by blast
qed

text \<open>The specification's example: from 1.0.0 to 1.3.0 with 1.1.0 and 1.2.0 between.\<close>

theorem versions_skipped_between_known_versions_witness:
  "all_versions skip_example_releases = [''1.0.0'', ''1.1.0'', ''1.2.0'', ''1.3.0''] \<and>
   strictly_between (all_versions skip_example_releases) 0 3 = [''1.1.0'', ''1.2.0''] \<and>
   count_versions_between skip_example_releases ''1.0.0'' ''1.3.0'' = 2 \<and>
   map versions_skipped
     (m_versions (repo_metrics_of skip_example_releases skip_example_adoptions)) = [None, Some 2] \<and>
   skip_counts (repo_metrics_of skip_example_releases skip_example_adoptions) = [2]"
proof -
  have a: "all_versions skip_example_releases = [''1.0.0'', ''1.1.0'', ''1.2.0'', ''1.3.0'']"
    by code_simp
  have b: "strictly_between (all_versions skip_example_releases) 0 3 = [''1.1.0'', ''1.2.0'']"
    by code_simp
  have c: "count_versions_between skip_example_releases ''1.0.0'' ''1.3.0'' = 2"
    by code_simp
  have d: "map versions_skipped
      (List.map_filter (version_info_at skip_example_releases skip_example_adoptions)
         [0..<length skip_example_adoptions]) = [None, Some 2]"
    by code_simp
  have f: "List.map_filter versions_skipped
      (List.map_filter (version_info_at skip_example_releases skip_example_adoptions)
         [0..<length skip_example_adoptions]) = [2]"
    by code_simp
  have e: "(0::nat) < 1" "1 < length skip_example_adoptions"
    by (simp_all add: skip_example_adoptions_def)
  show ?thesis
    using versions_skipped_between_known_versions [OF e, of skip_example_releases] a b c d f
    by simp
qed

lemma set_map_filter_iff:
  "y \<in> set (List.map_filter f xs) \<longleftrightarrow> (\<exists>x\<in>set xs. f x = Some y)"
  by (induction xs) (auto split: option.splits)

lemma info_in_infos_upto:
  "version_info_at rel ads i = Some info \<Longrightarrow> i < n \<Longrightarrow> info \<in> set (infos_upto rel ads n)"
  by (auto simp: infos_upto_def set_map_filter_iff)

lemma skipped_in_skip_counts:
  assumes "version_info_at rel ads i = Some info" "i < length ads" "versions_skipped info = Some s"
  shows "s \<in> set (skip_counts (repo_metrics_of rel ads))"
  using info_in_infos_upto [OF assms(1,2)] assms(3)
  by (auto simp: repo_metrics_of_lists set_map_filter_iff)

text \<open>
  Claim C10. Whenever two consecutive adoption records carry the same normalised version
  and that version is a known release, \<open>count_versions_between\<close> is \<open>-1\<close>, the entry
  stores it as \<open>versions_skipped\<close>, and it is in the list whose mean is
  \<open>avg_versions_skipped\<close>. And such a sequence exists: \<open>get_repo_adoptions\<close> compares
  the raw strings, so the edit from \<^verbatim>\<open>^1.0.0\<close> to \<^verbatim>\<open>1.0.0\<close> makes a second record
  of version 1.0.0, whose skip count is \<open>-1\<close>, as is the repository's average.
\<close>

theorem versions_skipped_can_be_negative:
  "(\<forall>rel ads i r.
      0 < i \<and> i < length ads \<and> version (ads ! (i - 1)) = version (ads ! i) \<and>
      map_of rel (version (ads ! i)) = Some r \<longrightarrow>
        count_versions_between rel (version (ads ! (i - 1))) (version (ads ! i)) = - 1 \<and>
        (\<exists>info. version_info_at rel ads i = Some info \<and> versions_skipped info = Some (- 1)) \<and>
        - 1 \<in> set (skip_counts (repo_metrics_of rel ads)) \<and>
        avg_versions_skipped (repo_metrics_of rel ads) =
          Some (mean (skip_counts (repo_metrics_of rel ads)))) \<and>
   get_repo_adoptions default_package_name (AdoptionLog prefix_edit_log) =
     Inr prefix_edit_adoptions \<and>
   map version prefix_edit_adoptions = [''1.0.0'', ''1.0.0''] \<and>
   map raw_version prefix_edit_adoptions = [''^1.0.0'', ''1.0.0''] \<and>
   map versions_skipped (m_versions (repo_metrics_of prefix_edit_releases prefix_edit_adoptions)) =
     [None, Some (- 1)] \<and>
   skip_counts (repo_metrics_of prefix_edit_releases prefix_edit_adoptions) = [- 1] \<and>
   avg_versions_skipped (repo_metrics_of prefix_edit_releases prefix_edit_adoptions) = Some (- 1)"
proof -
  have general: "count_versions_between rel (version (ads ! (i - 1))) (version (ads ! i)) = - 1 \<and>
        (\<exists>info. version_info_at rel ads i = Some info \<and> versions_skipped info = Some (- 1)) \<and>
        - 1 \<in> set (skip_counts (repo_metrics_of rel ads)) \<and>
        avg_versions_skipped (repo_metrics_of rel ads) =
          Some (mean (skip_counts (repo_metrics_of rel ads)))"
    if h: "0 < i" "i < length ads" "version (ads ! (i - 1)) = version (ads ! i)"
      "map_of rel (version (ads ! i)) = Some r"
    for rel ads i r
  proof -
    have c: "count_versions_between rel (version (ads ! (i - 1))) (version (ads ! i)) = - 1"
      using h(3,4) by (simp add: count_same_version)
    obtain info where info: "version_info_at rel ads i = Some info"
      "versions_skipped info = Some (- 1)"
      using version_info_at_known [OF h(2,4)] h(1) c by auto
    have m: "- 1 \<in> set (skip_counts (repo_metrics_of rel ads))"
      using skipped_in_skip_counts [OF info(1) h(2) info(2)] .
    then have "skip_counts (repo_metrics_of rel ads) \<noteq> []" by auto
    then have "avg_versions_skipped (repo_metrics_of rel ads) =
          Some (mean (skip_counts (repo_metrics_of rel ads)))"
      by (simp add: repo_metrics_of_lag_stats)
    with c info m show ?thesis by blast
  qed
  have run: "get_repo_adoptions default_package_name (AdoptionLog prefix_edit_log) =
     Inr prefix_edit_adoptions"
    by code_simp
  have v: "map version prefix_edit_adoptions = [''1.0.0'', ''1.0.0'']"
    "map raw_version prefix_edit_adoptions = [''^1.0.0'', ''1.0.0'']"
    by (simp_all add: prefix_edit_adoptions_def)
  have m1: "map versions_skipped
      (m_versions (repo_metrics_of prefix_edit_releases prefix_edit_adoptions)) = [None, Some (- 1)]"
    by code_simp
  have m2: "skip_counts (repo_metrics_of prefix_edit_releases prefix_edit_adoptions) = [- 1]"
    by code_simp
  have m3: "avg_versions_skipped (repo_metrics_of prefix_edit_releases prefix_edit_adoptions) =
      Some (- 1)"
    by code_simp
  from general run v m1 m2 m3 show ?thesis by blast
qed

text \<open>The general part at the records of the prefix-only edit.\<close>

theorem versions_skipped_can_be_negative_witness:
  "count_versions_between prefix_edit_releases ''1.0.0'' ''1.0.0'' = - 1 \<and>
   (\<exists>info. version_info_at prefix_edit_releases prefix_edit_adoptions 1 = Some info \<and>
           versions_skipped info = Some (- 1)) \<and>
   - 1 \<in> set (skip_counts (repo_metrics_of prefix_edit_releases prefix_edit_adoptions))"
proof -
  have a: "0 < (1::nat)" "1 < length prefix_edit_adoptions"
    "version (prefix_edit_adoptions ! (1 - 1)) = version (prefix_edit_adoptions ! 1)"
    "version (prefix_edit_adoptions ! 1) = ''1.0.0''"
    by (simp_all add: prefix_edit_adoptions_def)
  have b: "map_of prefix_edit_releases (version (prefix_edit_adoptions ! 1)) =
      Some \<lparr>date = mk_datetime 2024 1 1 0 0 0, rel_version = ''1.0.0''\<rparr>"
    by code_simp
  show ?thesis
    using versions_skipped_can_be_negative a b by (metis (no_types, lifting))
qed

subsection \<open>Version Resolver\<close>

text \<open>
  Claim C1 at a manifest that has both a direct dependency (1.0.0) and a direct override
  (2.0.0) of the tracked package. The trackers resolve the override, as the claim says:
  \<open>extract_component_versions\<close> finds both and the effective version is 2.0.0. The
  analyzer's \<open>get_version_at_commit\<close> reads \<^verbatim>\<open>dependencies\<close> first and looks at the
  overrides only when that gave nothing: it returns 1.0.0.
\<close>

theorem get_version_at_commit_prefers_dependency:
  "extract_component_versions default_package_name override_and_dependency_manifest =
     Inr \<lparr>dependency = JStr ''1.0.0'', override = JStr ''2.0.0'', transitive_overrides = []\<rparr> \<and>
   effective_of \<lparr>dependency = JStr ''1.0.0'', override = JStr ''2.0.0'', transitive_overrides = []\<rparr> =
     JStr ''2.0.0'' \<and>
   get_version_at_commit default_package_name (Document override_and_dependency_manifest) =
     Inr (JStr ''1.0.0'')"
  by code_simp

text \<open>
  Claim C5 as stated fails on a parsed document with a malformed entry: with
  \<^verbatim>\<open>"dependencies": null\<close> both resolvers call \<^verbatim>\<open>.get\<close> on \<^verbatim>\<open>None\<close>
  (\<^verbatim>\<open>AttributeError\<close>), and a document that is a number fails at
  \<^verbatim>\<open>"dependencies" in package_json\<close> (\<^verbatim>\<open>TypeError\<close>). Neither exception is caught.
\<close>

theorem resolver_raises_on_malformed_entry:
  "extract_component_versions default_package_name null_dependencies_manifest = Inl AttributeError \<and>
   get_version_at_commit default_package_name (Document null_dependencies_manifest) =
     Inl AttributeError \<and>
   extract_component_versions default_package_name (JNum 42) = Inl TypeError"
  by code_simp

text \<open>
  Claim C5, amended. A manifest that cannot be retrieved or parsed resolves to
  \<^verbatim>\<open>None\<close>. For a parsed document that is an object whose \<^verbatim>\<open>dependencies\<close>,
  \<^verbatim>\<open>devDependencies\<close>, \<^verbatim>\<open>pnpm\<close> and \<^verbatim>\<open>pnpm.overrides\<close> entries, where present, are
  objects, both resolvers return a result; and when the tracked package has no entry in
  any of them, the result is absence.
\<close>

theorem resolver_returns_on_well_formed_manifest:
  "get_package_json_at_commit ShowFailed = JNull \<and>
   get_package_json_at_commit Unparsable = JNull \<and>
   get_version_at_commit pkg ShowFailed = Inr JNull \<and>
   get_version_at_commit pkg Unparsable = Inr JNull \<and>
   (well_formed_manifest (JObj kvs) \<longrightarrow>
      (\<exists>v. extract_component_versions pkg (JObj kvs) = Inr v) \<and>
      (\<exists>x. get_version_at_commit pkg (Document (JObj kvs)) = Inr x)) \<and>
   (well_formed_manifest (JObj kvs) \<and> package_missing pkg kvs \<longrightarrow>
      extract_component_versions pkg (JObj kvs) = Inr initial_versions \<and>
      effective_of initial_versions = JNull \<and>
      get_version_at_commit pkg (Document (JObj kvs)) = Inr JNull)"
proof -
  have absent: "get_package_json_at_commit ShowFailed = JNull \<and>
      get_package_json_at_commit Unparsable = JNull \<and>
      get_version_at_commit pkg ShowFailed = Inr JNull \<and>
      get_version_at_commit pkg Unparsable = Inr JNull"
    by (simp add: get_version_at_commit_def)
  have total: "(\<exists>v. extract_component_versions pkg (JObj kvs) = Inr v) \<and>
      (\<exists>x. get_version_at_commit pkg (Document (JObj kvs)) = Inr x)"
    if "well_formed_manifest (JObj kvs)"
    using extract_well_formed [OF that] get_version_well_formed [OF that] by blast
  have missing: "extract_component_versions pkg (JObj kvs) = Inr initial_versions \<and>
      effective_of initial_versions = JNull \<and>
      get_version_at_commit pkg (Document (JObj kvs)) = Inr JNull"
    if wf: "well_formed_manifest (JObj kvs)" and m: "package_missing pkg kvs"
  proof -
    have e: "entry_of (section_entries ''dependencies'' kvs) pkg = JNull"
      "entry_of (section_entries ''devDependencies'' kvs) pkg = JNull"
      "entry_of (overrides_entries kvs) pkg = JNull"
      "transitive_of pkg (overrides_entries kvs) = []"
      "first_transitive pkg (overrides_entries kvs) JNull = JNull"
      using m by (simp_all add: package_missing_def entry_of_def transitive_of_def
          first_transitive_def)
    have "extract_component_versions pkg (JObj kvs) = Inr initial_versions"
      by (simp add: extract_well_formed [OF wf] e initial_versions_def)
    moreover have "effective_of initial_versions = JNull"
      by (simp add: effective_of_def initial_versions_def)
    moreover have "get_version_at_commit pkg (Document (JObj kvs)) = Inr JNull"
      by (simp add: get_version_well_formed [OF wf] e)
    ultimately show ?thesis by blast
  qed
  from absent total missing show ?thesis by blast
qed

text \<open>A manifest that depends on another package only.\<close>

theorem resolver_returns_on_well_formed_manifest_witness:
  "well_formed_manifest plain_manifest \<and>
   extract_component_versions default_package_name plain_manifest = Inr initial_versions \<and>
   get_version_at_commit default_package_name (Document plain_manifest) = Inr JNull"
proof -
  have wf: "well_formed_manifest (JObj [(''name'', JStr ''account-page''),
      (''dependencies'', JObj [(''react'', JStr ''^18.2.0'')])])"
    by code_simp
  have m: "package_missing default_package_name [(''name'', JStr ''account-page''),
      (''dependencies'', JObj [(''react'', JStr ''^18.2.0'')])]"
    by code_simp
  show ?thesis
    using resolver_returns_on_well_formed_manifest
      [of default_package_name "[(''name'', JStr ''account-page''),
      (''dependencies'', JObj [(''react'', JStr ''^18.2.0'')])]"] wf m
    by (simp add: plain_manifest_def)
qed

subsection \<open>The change detector and the transitions of its snapshots\<close>

lemma py_eq_refl: "py_eq a a"
  by (simp add: py_eq_def)

lemma py_eq_sym: "py_eq a b \<Longrightarrow> py_eq b a"
  by (simp add: py_eq_def)

lemma py_eq_trans: "py_eq a b \<Longrightarrow> py_eq b c \<Longrightarrow> py_eq a c"
  by (simp add: py_eq_def)

lemma py_eq_truthy: "py_eq a b \<Longrightarrow> truthy a = truthy b"
  by (metis py_eq_def truthy_canon)

lemma py_eq_string_or_none: "py_eq a b \<Longrightarrow> string_or_none b \<Longrightarrow> a = b"
  by (cases b; cases a) (auto simp: py_eq_def split: if_splits)

lemma transitive_eq_Nil:
  "\<not> transitive_ne xs ys \<Longrightarrow> (xs = []) = (ys = [])"
  by (metis transitive_ne_def map_is_Nil_conv)

lemma transitive_eq_hd:
  "\<not> transitive_ne xs ys \<Longrightarrow> xs \<noteq> [] \<Longrightarrow> py_eq (snd (hd xs)) (snd (hd ys))"
  by (cases xs; cases ys) (auto simp: transitive_ne_def py_eq_def)

lemma unchanged_effective:
  assumes "\<not> versions_changed v p"
  shows "py_eq (effective_of v) (effective_of p)"
proof -
  have d: "py_eq (dependency v) (dependency p)"
    and ov: "py_eq (override v) (override p)"
    and tr: "\<not> transitive_ne (transitive_overrides v) (transitive_overrides p)"
    using assms by (simp_all add: versions_changed_def py_ne_def)
  have t1: "truthy (override v) = truthy (override p)"
    using ov by (rule py_eq_truthy)
  have nil: "(transitive_overrides v = []) = (transitive_overrides p = [])"
    using tr by (rule transitive_eq_Nil)
  show ?thesis
  proof (cases "\<not> truthy (override v) \<and> transitive_overrides v \<noteq> []")
    case True
    then have h: "py_eq (snd (hd (transitive_overrides v))) (snd (hd (transitive_overrides p)))"
      using transitive_eq_hd [OF tr] by simp
    then have "truthy (snd (hd (transitive_overrides v))) = truthy (snd (hd (transitive_overrides p)))"
      by (rule py_eq_truthy)
    then show ?thesis
      using True t1 nil h d by (simp add: effective_of_def Let_def)
  next
    case False
    then show ?thesis
      using t1 nil ov d by (auto simp: effective_of_def Let_def)
  qed
qed

lemma not_transition_effective:
  "\<not> is_transition p v \<Longrightarrow> py_eq (effective_of v) (effective_of p)"
  using unchanged_effective [of v p] by (auto simp: is_transition_def py_ne_def)

lemma chain_from_cong: "chain_from e xs \<Longrightarrow> py_eq e e' \<Longrightarrow> chain_from e' xs"
  by (cases xs) (auto intro: py_eq_trans)

lemma transitions_chain:
  "chain_from (effective_of p)
     (map (\<lambda>(previous, c, v). (effective_of previous, effective_of v)) (transitions p xs))"
proof (induction xs arbitrary: p)
  case Nil
  then show ?case by simp
next
  case (Cons x xs)
  obtain c v where x: "x = (c, v)" by (cases x)
  show ?case
  proof (cases "is_transition p v")
    case True
    then show ?thesis
      using Cons.IH [of v] by (simp add: x py_eq_refl)
  next
    case False
    then have "py_eq (effective_of v) (effective_of p)"
      by (rule not_transition_effective)
    then show ?thesis
      using Cons.IH [of v] False by (simp add: x chain_from_cong)
  qed
qed

lemma chain_from_nth:
  "chain_from e xs \<Longrightarrow>
     (xs \<noteq> [] \<longrightarrow> py_eq (fst (hd xs)) e) \<and>
     (\<forall>i. Suc i < length xs \<longrightarrow> py_eq (fst (xs ! Suc i)) (snd (xs ! i)))"
proof (induction xs arbitrary: e)
  case Nil
  then show ?case by simp
next
  case (Cons x xs)
  obtain a b where x: "x = (a, b)" by (cases x)
  from Cons.prems have h: "py_eq a e" and t: "chain_from b xs"
    by (simp_all add: x)
  from Cons.IH [OF t] have ih: "(xs \<noteq> [] \<longrightarrow> py_eq (fst (hd xs)) b)"
    "\<And>i. Suc i < length xs \<Longrightarrow> py_eq (fst (xs ! Suc i)) (snd (xs ! i))"
    by simp_all
  have "py_eq (fst ((x # xs) ! Suc i)) (snd ((x # xs) ! i))" if "Suc i < length (x # xs)" for i
  proof (cases i)
    case 0
    then show ?thesis using that ih(1) by (cases xs) (simp_all add: x)
  next
    case (Suc j)
    then show ?thesis using that ih(2) [of j] by simp
  qed
  then show ?case using h by (simp add: x)
qed

lemma transitions_append:
  "transitions p (xs @ ys) = transitions p xs @ transitions (last (p # map snd xs)) ys"
  by (induction xs arbitrary: p) (auto)

lemma track_commit_transitions:
  assumes "track_commit pkg repo st c = Inr st'"
  shows "\<exists>new. changes st' = changes st @ new \<and>
           list_all2 (emitted_for repo) new (transitions (last_versions st) (parsed_commit pkg c)) \<and>
           last_versions st' = last (last_versions st # map snd (parsed_commit pkg c))"
proof (cases "truthy (get_package_json_at_commit (gc_manifest c))")
  case False
  then show ?thesis
    using assms by (simp add: track_commit_def parsed_commit_def)
next
  case True
  show ?thesis
  proof (cases "extract_component_versions pkg (get_package_json_at_commit (gc_manifest c))")
    case (Inl e)
    then show ?thesis
      using assms True by (simp add: track_commit_def bindE_Inl)
  next
    case (Inr v)
    have pc: "parsed_commit pkg c = [(c, v)]"
      using True Inr by (simp add: parsed_commit_def)
    show ?thesis
    proof (cases "is_transition (last_versions st) v")
      case False
      then have "st' = st\<lparr>last_versions := v\<rparr>"
        using assms True Inr by (auto simp: track_commit_def bindE_Inr is_transition_def Let_def)
      then show ?thesis
        using False by (simp add: pc)
    next
      case tr: True
      show ?thesis
      proof (cases "get_commit_info (gc_info c)")
        case (Inl e)
        then show ?thesis
          using assms True Inr tr
          by (simp add: track_commit_def bindE_Inr bindE_Inl is_transition_def Let_def)
      next
        case info: (Inr info)
        then show ?thesis
          using assms True Inr tr
          by (auto simp: track_commit_def bindE_Inr is_transition_def Let_def pc emitted_for_def)
      qed
    qed
  qed
qed

lemma track_commits_transitions:
  "track_commits pkg repo st cs = Inr st' \<Longrightarrow>
     \<exists>new. changes st' = changes st @ new \<and>
       list_all2 (emitted_for repo) new (transitions (last_versions st) (parsed_commits pkg cs)) \<and>
       last_versions st' = last (last_versions st # map snd (parsed_commits pkg cs))"
proof (induction cs arbitrary: st)
  case Nil
  then show ?case by (simp add: parsed_commits_def)
next
  case (Cons c cs)
  from Cons.prems obtain st1 where s1: "track_commit pkg repo st c = Inr st1"
    and rest: "track_commits pkg repo st1 cs = Inr st'"
    by (auto split: sum.splits)
  from track_commit_transitions [OF s1] obtain new1 where
    n1: "changes st1 = changes st @ new1"
    "list_all2 (emitted_for repo) new1 (transitions (last_versions st) (parsed_commit pkg c))"
    "last_versions st1 = last (last_versions st # map snd (parsed_commit pkg c))"
    by blast
  from Cons.IH [OF rest] obtain new2 where
    n2: "changes st' = changes st1 @ new2"
    "list_all2 (emitted_for repo) new2 (transitions (last_versions st1) (parsed_commits pkg cs))"
    "last_versions st' = last (last_versions st1 # map snd (parsed_commits pkg cs))"
    by blast
  have pcs: "parsed_commits pkg (c # cs) = parsed_commit pkg c @ parsed_commits pkg cs"
    by (simp add: parsed_commits_def)
  have "changes st' = changes st @ (new1 @ new2)"
    using n1(1) n2(1) by simp
  moreover have "list_all2 (emitted_for repo) (new1 @ new2)
      (transitions (last_versions st) (parsed_commits pkg (c # cs)))"
    unfolding pcs transitions_append
    using n1(2) n2(2) n1(3) by (auto intro: list_all2_appendI)
  moreover have "last_versions st' = last (last_versions st # map snd (parsed_commits pkg (c # cs)))"
    unfolding pcs using n2(3) n1(3) by (simp add: last_append)
  ultimately show ?case by blast
qed

lemma track_commit1_transitions:
  assumes "track_commit1 pkg st c = Inr st'"
  shows "\<exists>new. changes1 st' = changes1 st @ new \<and>
           list_all2 emitted_for1 new (transitions (last_versions1 st) (parsed_commit pkg c)) \<and>
           last_versions1 st' = last (last_versions1 st # map snd (parsed_commit pkg c))"
proof (cases "truthy (get_package_json_at_commit (gc_manifest c))")
  case False
  then show ?thesis
    using assms by (simp add: track_commit1_def parsed_commit_def)
next
  case True
  show ?thesis
  proof (cases "extract_component_versions pkg (get_package_json_at_commit (gc_manifest c))")
    case (Inl e)
    then show ?thesis
      using assms True by (simp add: track_commit1_def bindE_Inl)
  next
    case (Inr v)
    have pc: "parsed_commit pkg c = [(c, v)]"
      using True Inr by (simp add: parsed_commit_def)
    show ?thesis
    proof (cases "get_commit_info (gc_info c)")
      case (Inl e)
      then show ?thesis
        using assms True Inr by (simp add: track_commit1_def bindE_Inr bindE_Inl)
    next
      case info: (Inr info)
      show ?thesis
      proof (cases "is_transition (last_versions1 st) v")
        case False
        then have "st' = st\<lparr>last_versions1 := v\<rparr>"
          using assms True Inr info
          by (auto simp: track_commit1_def bindE_Inr is_transition_def Let_def)
        then show ?thesis
          using False by (simp add: pc)
      next
        case tr: True
        then show ?thesis
          using assms True Inr info
          by (auto simp: track_commit1_def bindE_Inr is_transition_def Let_def pc emitted_for1_def)
      qed
    qed
  qed
qed

lemma track_commits1_transitions:
  "track_commits1 pkg st cs = Inr st' \<Longrightarrow>
     \<exists>new. changes1 st' = changes1 st @ new \<and>
       list_all2 emitted_for1 new (transitions (last_versions1 st) (parsed_commits pkg cs)) \<and>
       last_versions1 st' = last (last_versions1 st # map snd (parsed_commits pkg cs))"
proof (induction cs arbitrary: st)
  case Nil
  then show ?case by (simp add: parsed_commits_def)
next
  case (Cons c cs)
  from Cons.prems obtain st1 where s1: "track_commit1 pkg st c = Inr st1"
    and rest: "track_commits1 pkg st1 cs = Inr st'"
    by (auto split: sum.splits)
  from track_commit1_transitions [OF s1] obtain new1 where
    n1: "changes1 st1 = changes1 st @ new1"
    "list_all2 emitted_for1 new1 (transitions (last_versions1 st) (parsed_commit pkg c))"
    "last_versions1 st1 = last (last_versions1 st # map snd (parsed_commit pkg c))"
    by blast
  from Cons.IH [OF rest] obtain new2 where
    n2: "changes1 st' = changes1 st1 @ new2"
    "list_all2 emitted_for1 new2 (transitions (last_versions1 st1) (parsed_commits pkg cs))"
    "last_versions1 st' = last (last_versions1 st1 # map snd (parsed_commits pkg cs))"
    by blast
  have pcs: "parsed_commits pkg (c # cs) = parsed_commit pkg c @ parsed_commits pkg cs"
    by (simp add: parsed_commits_def)
  have "changes1 st' = changes1 st @ (new1 @ new2)"
    using n1(1) n2(1) by simp
  moreover have "list_all2 emitted_for1 (new1 @ new2)
      (transitions (last_versions1 st) (parsed_commits pkg (c # cs)))"
    unfolding pcs transitions_append
    using n1(2) n2(2) n1(3) by (auto intro: list_all2_appendI)
  moreover have "last_versions1 st' = last (last_versions1 st # map snd (parsed_commits pkg (c # cs)))"
    unfolding pcs using n2(3) n1(3) by (simp add: last_append)
  ultimately show ?case by blast
qed

lemma track_commit_readable:
  "commit_readable pkg c \<Longrightarrow> \<exists>st'. track_commit pkg repo st c = Inr st'"
  by (auto simp: commit_readable_def track_commit_def bindE_def Let_def split: sum.splits if_splits)

lemma track_commit1_readable:
  "commit_readable pkg c \<Longrightarrow> \<exists>st'. track_commit1 pkg st c = Inr st'"
  by (auto simp: commit_readable_def track_commit1_def bindE_def Let_def split: sum.splits if_splits)

lemma track_commits_readable:
  "\<forall>c\<in>set cs. commit_readable pkg c \<Longrightarrow> \<exists>st'. track_commits pkg repo st cs = Inr st'"
proof (induction cs arbitrary: st)
  case Nil
  then show ?case by simp
next
  case (Cons c cs)
  then obtain st1 where "track_commit pkg repo st c = Inr st1"
    using track_commit_readable [of pkg c repo st] by auto
  then show ?case using Cons by simp
qed

lemma track_commits1_readable:
  "\<forall>c\<in>set cs. commit_readable pkg c \<Longrightarrow> \<exists>st'. track_commits1 pkg st cs = Inr st'"
proof (induction cs arbitrary: st)
  case Nil
  then show ?case by simp
next
  case (Cons c cs)
  then obtain st1 where "track_commit1 pkg st c = Inr st1"
    using track_commit1_readable [of pkg c st] by auto
  then show ?case using Cons by simp
qed

lemma track_commits_initial:
  assumes "track_commits pkg repo initial_state cs = Inr st"
  shows "list_all2 (emitted_for repo) (changes st)
           (transitions initial_versions (parsed_commits pkg cs))"
    and "last_versions st = last (initial_versions # map snd (parsed_commits pkg cs))"
  using track_commits_transitions [OF assms] by (simp_all add: initial_state_def)

lemma track_commits1_initial:
  assumes "track_commits1 pkg initial_state1 cs = Inr st"
  shows "list_all2 emitted_for1 (changes1 st)
           (transitions initial_versions (parsed_commits pkg cs))"
    and "last_versions1 st = last (initial_versions # map snd (parsed_commits pkg cs))"
  using track_commits1_transitions [OF assms] by (simp_all add: initial_state1_def)

text \<open>
  Claim C4 as stated fails at a commit whose manifest parses to an empty document: the
  loop's \<^verbatim>\<open>if not package_json: continue\<close> skips \<^verbatim>\<open>{}\<close> as it skips a manifest that
  is missing or unparsable. Resolved, \<^verbatim>\<open>{}\<close> would give the all-absent snapshot, which
  differs from the previous one in a constituent and in the effective version; yet neither
  tracker makes a record at the second commit or advances the snapshot, and so none at
  the third either.
\<close>

theorem empty_manifest_commit_is_skipped:
  "extract_component_versions default_package_name (JObj []) = Inr initial_versions \<and>
   is_transition
     \<lparr>dependency = JStr ''1.0.0'', override = JNull, transitive_overrides = []\<rparr>
     initial_versions \<and>
   last_versions (projr (track_commits default_package_name ''account-page'' initial_state
     (take 1 empty_manifest_history))) =
     \<lparr>dependency = JStr ''1.0.0'', override = JNull, transitive_overrides = []\<rparr> \<and>
   last_versions (projr (track_commits default_package_name ''account-page'' initial_state
     (take 2 empty_manifest_history))) =
     \<lparr>dependency = JStr ''1.0.0'', override = JNull, transitive_overrides = []\<rparr> \<and>
   map (\<lambda>r. (cr_commit r, cr_previous_effective r, cr_effective_version r))
     (changes (projr (track_commits default_package_name ''account-page'' initial_state
        empty_manifest_history))) = [(''11111111'', JNull, JStr ''1.0.0'')] \<and>
   map (\<lambda>r. (c1_commit r, c1_previous_effective r, c1_effective_version r))
     (changes1 (projr (track_commits1 default_package_name initial_state1
        empty_manifest_history))) = [(''11111111'', JNull, JStr ''1.0.0'')]"
  by code_simp

text \<open>
  Claim C4, amended. Whenever the detector has processed a commit sequence, its records
  are, one for one and in order, the records of the transitions of the resolved
  snapshots, a snapshot being resolved at every commit whose manifest is retrieved, parsed
  and not empty: a snapshot yields a record exactly when some constituent differs from the
  previous snapshot and the effective version differs from the previous effective version,
  and the previous snapshot is always the snapshot before, record or not; it ends as the
  last snapshot. This holds for the loop of \<^verbatim>\<open>track_repo_version_changes\<close> and for the
  loop of \<^verbatim>\<open>track_version_changes\<close>, and both loops do return when every commit is
  readable.
\<close>

theorem record_iff_net_effective_change:
  "(\<forall>st. track_commits pkg repo initial_state cs = Inr st \<longrightarrow>
       list_all2 (emitted_for repo) (changes st)
         (transitions initial_versions (parsed_commits pkg cs)) \<and>
       last_versions st = last (initial_versions # map snd (parsed_commits pkg cs))) \<and>
   (\<forall>st. track_commits1 pkg initial_state1 cs = Inr st \<longrightarrow>
       list_all2 emitted_for1 (changes1 st)
         (transitions initial_versions (parsed_commits pkg cs)) \<and>
       last_versions1 st = last (initial_versions # map snd (parsed_commits pkg cs))) \<and>
   ((\<forall>c\<in>set cs. commit_readable pkg c) \<longrightarrow>
       (\<exists>st. track_commits pkg repo initial_state cs = Inr st) \<and>
       (\<exists>st. track_commits1 pkg initial_state1 cs = Inr st))"
  using track_commits_initial [of pkg repo cs] track_commits1_initial [of pkg cs]
    track_commits_readable [of cs pkg repo initial_state]
    track_commits1_readable [of cs pkg initial_state1]
  by blast

text \<open>The cancel-out: at the second commit the dependency and the override both change,
  the effective version stays 2.0.0, no record is made, and the third commit's record
  starts from the second snapshot.\<close>

theorem record_iff_net_effective_change_witness:
  "map snd (parsed_commits default_package_name cancel_out_history) =
     [\<lparr>dependency = JStr ''1.0.0'', override = JStr ''2.0.0'', transitive_overrides = []\<rparr>,
      \<lparr>dependency = JStr ''2.0.0'', override = JNull, transitive_overrides = []\<rparr>,
      \<lparr>dependency = JStr ''3.0.0'', override = JNull, transitive_overrides = []\<rparr>] \<and>
   versions_changed
     \<lparr>dependency = JStr ''2.0.0'', override = JNull, transitive_overrides = []\<rparr>
     \<lparr>dependency = JStr ''1.0.0'', override = JStr ''2.0.0'', transitive_overrides = []\<rparr> \<and>
   map (\<lambda>(previous, c, v). (effective_of previous, effective_of v))
     (transitions initial_versions (parsed_commits default_package_name cancel_out_history)) =
     [(JNull, JStr ''2.0.0''), (JStr ''2.0.0'', JStr ''3.0.0'')] \<and>
   (\<exists>st. track_commits default_package_name ''account-page'' initial_state cancel_out_history =
           Inr st \<and>
         map (\<lambda>r. (cr_commit r, cr_previous_effective r, cr_effective_version r)) (changes st) =
           [(''11111111'', JNull, JStr ''2.0.0''), (''33333333'', JStr ''2.0.0'', JStr ''3.0.0'')] \<and>
         list_all2 (emitted_for ''account-page'') (changes st)
           (transitions initial_versions (parsed_commits default_package_name cancel_out_history)) \<and>
         last_versions st =
           \<lparr>dependency = JStr ''3.0.0'', override = JNull, transitive_overrides = []\<rparr>)"
proof -
  have a: "map snd (parsed_commits default_package_name cancel_out_history) =
     [\<lparr>dependency = JStr ''1.0.0'', override = JStr ''2.0.0'', transitive_overrides = []\<rparr>,
      \<lparr>dependency = JStr ''2.0.0'', override = JNull, transitive_overrides = []\<rparr>,
      \<lparr>dependency = JStr ''3.0.0'', override = JNull, transitive_overrides = []\<rparr>]"
    by code_simp
  have b: "versions_changed
     \<lparr>dependency = JStr ''2.0.0'', override = JNull, transitive_overrides = []\<rparr>
     \<lparr>dependency = JStr ''1.0.0'', override = JStr ''2.0.0'', transitive_overrides = []\<rparr>"
    by code_simp
  have c: "map (\<lambda>(previous, c, v). (effective_of previous, effective_of v))
     (transitions initial_versions (parsed_commits default_package_name cancel_out_history)) =
     [(JNull, JStr ''2.0.0''), (JStr ''2.0.0'', JStr ''3.0.0'')]"
    by code_simp
  have d: "\<not> isl (track_commits default_package_name ''account-page'' initial_state
      cancel_out_history)"
    by code_simp
  then obtain st where st: "track_commits default_package_name ''account-page'' initial_state
      cancel_out_history = Inr st"
    by (cases "track_commits default_package_name ''account-page'' initial_state
      cancel_out_history") auto
  have e: "map (\<lambda>r. (cr_commit r, cr_previous_effective r, cr_effective_version r))
      (changes (projr (track_commits default_package_name ''account-page'' initial_state
         cancel_out_history))) =
      [(''11111111'', JNull, JStr ''2.0.0''), (''33333333'', JStr ''2.0.0'', JStr ''3.0.0'')]"
    by code_simp
  have f: "list_all2 (emitted_for ''account-page'') (changes st)
      (transitions initial_versions (parsed_commits default_package_name cancel_out_history)) \<and>
      last_versions st = last (initial_versions #
        map snd (parsed_commits default_package_name cancel_out_history))"
    using record_iff_net_effective_change
      [of default_package_name "''account-page''" cancel_out_history] st
    by blast
  have g: "map (\<lambda>r. (cr_commit r, cr_previous_effective r, cr_effective_version r)) (changes st) =
      [(''11111111'', JNull, JStr ''2.0.0''), (''33333333'', JStr ''2.0.0'', JStr ''3.0.0'')]"
    using e st by simp
  have h: "last_versions st =
      \<lparr>dependency = JStr ''3.0.0'', override = JNull, transitive_overrides = []\<rparr>"
    using f a by simp
  have ex: "\<exists>st. track_commits default_package_name ''account-page'' initial_state cancel_out_history =
           Inr st \<and>
         map (\<lambda>r. (cr_commit r, cr_previous_effective r, cr_effective_version r)) (changes st) =
           [(''11111111'', JNull, JStr ''2.0.0''), (''33333333'', JStr ''2.0.0'', JStr ''3.0.0'')] \<and>
         list_all2 (emitted_for ''account-page'') (changes st)
           (transitions initial_versions (parsed_commits default_package_name cancel_out_history)) \<and>
         last_versions st =
           \<lparr>dependency = JStr ''3.0.0'', override = JNull, transitive_overrides = []\<rparr>"
    using st f g h by (intro exI [of _ st]) (simp only: simp_thms)
  show ?thesis
    by (rule conjI [OF a conjI [OF b conjI [OF c ex]]])
qed

lemma emitted_for_fields:
  "emitted_for repo r (p, c, v) \<Longrightarrow>
     cr_previous_effective r = effective_of p \<and> cr_effective_version r = effective_of v"
  by (cases "get_commit_info (gc_info c)") (auto simp: emitted_for_def)

lemma emitted_for1_fields:
  "emitted_for1 r (p, c, v) \<Longrightarrow>
     c1_previous_effective r = effective_of p \<and> c1_effective_version r = effective_of v"
  by (cases "get_commit_info (gc_info c)") (auto simp: emitted_for1_def)

lemma emitted_pairs:
  "list_all2 (emitted_for repo) rs ts \<Longrightarrow>
     map (\<lambda>r. (cr_previous_effective r, cr_effective_version r)) rs =
     map (\<lambda>(previous, c, v). (effective_of previous, effective_of v)) ts"
proof (induction rs ts rule: list_all2_induct)
  case Nil
  then show ?case by simp
next
  case (Cons r rs t ts)
  obtain p c v where t: "t = (p, c, v)" by (cases t)
  show ?case
    using Cons.IH emitted_for_fields [of repo r p c v] Cons.hyps(1) by (simp add: t)
qed

lemma emitted1_pairs:
  "list_all2 emitted_for1 rs ts \<Longrightarrow>
     map (\<lambda>r. (c1_previous_effective r, c1_effective_version r)) rs =
     map (\<lambda>(previous, c, v). (effective_of previous, effective_of v)) ts"
proof (induction rs ts rule: list_all2_induct)
  case Nil
  then show ?case by simp
next
  case (Cons r rs t ts)
  obtain p c v where t: "t = (p, c, v)" by (cases t)
  show ?case
    using Cons.IH emitted_for1_fields [of r p c v] Cons.hyps(1) by (simp add: t)
qed

lemma chain_records:
  assumes "chain_from JNull (map (\<lambda>r. (f r, g r)) rs)"
  shows "(rs \<noteq> [] \<longrightarrow> f (hd rs) = JNull) \<and>
         (\<forall>i. Suc i < length rs \<longrightarrow>
            py_eq (f (rs ! Suc i)) (g (rs ! i)) \<and>
            (string_or_none (g (rs ! i)) \<longrightarrow> f (rs ! Suc i) = g (rs ! i)))"
proof -
  from chain_from_nth [OF assms]
  have h: "rs \<noteq> [] \<longrightarrow> py_eq (f (hd rs)) JNull"
    and n: "\<And>i. Suc i < length rs \<Longrightarrow> py_eq (f (rs ! Suc i)) (g (rs ! i))"
    by (simp_all add: hd_map)
  have "rs \<noteq> [] \<longrightarrow> f (hd rs) = JNull"
    using h py_eq_string_or_none [of "f (hd rs)" JNull] by simp
  moreover have "py_eq (f (rs ! Suc i)) (g (rs ! i)) \<and>
            (string_or_none (g (rs ! i)) \<longrightarrow> f (rs ! Suc i) = g (rs ! i))"
    if "Suc i < length rs" for i
    using n [OF that] py_eq_string_or_none by blast
  ultimately show ?thesis by blast
qed

lemma effective_of_initial: "effective_of initial_versions = JNull"
  by (simp add: effective_of_def initial_versions_def)

lemma track_commits_chain:
  assumes "track_commits pkg repo initial_state cs = Inr st"
  shows "chain_from JNull (map (\<lambda>r. (cr_previous_effective r, cr_effective_version r)) (changes st))"
  using emitted_pairs [OF track_commits_initial(1) [OF assms]]
    transitions_chain [of initial_versions "parsed_commits pkg cs"]
  by (simp add: effective_of_initial)

lemma track_commits1_chain:
  assumes "track_commits1 pkg initial_state1 cs = Inr st"
  shows "chain_from JNull (map (\<lambda>r. (c1_previous_effective r, c1_effective_version r)) (changes1 st))"
  using emitted1_pairs [OF track_commits1_initial(1) [OF assms]]
    transitions_chain [of initial_versions "parsed_commits pkg cs"]
  by (simp add: effective_of_initial)

text \<open>
  Claim C9. In the record sequence either tracker makes for a repository, the first
  record's \<open>previous_effective\<close> is \<^verbatim>\<open>None\<close>, and every later record's
  \<open>previous_effective\<close> equals the \<open>effective_version\<close> of the record before it:
  equal as Python's \<^verbatim>\<open>==\<close> has it, and the very same value whenever that effective
  version is a string or \<^verbatim>\<open>None\<close>, as every version of a manifest that follows the
  schema is.
\<close>

theorem previous_effective_is_preceding_effective:
  "(\<forall>st. track_commits pkg repo initial_state cs = Inr st \<longrightarrow>
      (changes st \<noteq> [] \<longrightarrow> cr_previous_effective (hd (changes st)) = JNull) \<and>
      (\<forall>i. Suc i < length (changes st) \<longrightarrow>
         py_eq (cr_previous_effective (changes st ! Suc i)) (cr_effective_version (changes st ! i)) \<and>
         (string_or_none (cr_effective_version (changes st ! i)) \<longrightarrow>
            cr_previous_effective (changes st ! Suc i) = cr_effective_version (changes st ! i)))) \<and>
   (\<forall>st. track_commits1 pkg initial_state1 cs = Inr st \<longrightarrow>
      (changes1 st \<noteq> [] \<longrightarrow> c1_previous_effective (hd (changes1 st)) = JNull) \<and>
      (\<forall>i. Suc i < length (changes1 st) \<longrightarrow>
         py_eq (c1_previous_effective (changes1 st ! Suc i)) (c1_effective_version (changes1 st ! i)) \<and>
         (string_or_none (c1_effective_version (changes1 st ! i)) \<longrightarrow>
            c1_previous_effective (changes1 st ! Suc i) = c1_effective_version (changes1 st ! i))))"
proof (intro conjI allI impI)
  fix st
  assume a: "track_commits pkg repo initial_state cs = Inr st"
  note c = chain_records [OF track_commits_chain [OF a]]
  { assume "changes st \<noteq> []"
    then show "cr_previous_effective (hd (changes st)) = JNull" using c by blast }
  { fix i assume i: "Suc i < length (changes st)"
    show "py_eq (cr_previous_effective (changes st ! Suc i)) (cr_effective_version (changes st ! i))"
      using c i by blast
    assume "string_or_none (cr_effective_version (changes st ! i))"
    then show "cr_previous_effective (changes st ! Suc i) = cr_effective_version (changes st ! i)"
      using c i by blast }
next
  fix st
  assume a: "track_commits1 pkg initial_state1 cs = Inr st"
  note c = chain_records [OF track_commits1_chain [OF a]]
  { assume "changes1 st \<noteq> []"
    then show "c1_previous_effective (hd (changes1 st)) = JNull" using c by blast }
  { fix i assume i: "Suc i < length (changes1 st)"
    show "py_eq (c1_previous_effective (changes1 st ! Suc i)) (c1_effective_version (changes1 st ! i))"
      using c i by blast
    assume "string_or_none (c1_effective_version (changes1 st ! i))"
    then show "c1_previous_effective (changes1 st ! Suc i) = c1_effective_version (changes1 st ! i)"
      using c i by blast }
qed

text \<open>Three bumps of the dependency, with an unparsable commit and an unchanged one
  between them.\<close>

theorem previous_effective_is_preceding_effective_witness:
  "\<exists>st. track_commits default_package_name ''account-page'' initial_state bump_history = Inr st \<and>
        map (\<lambda>r. (cr_previous_effective r, cr_effective_version r)) (changes st) =
          [(JNull, JStr ''^1.0.0''), (JStr ''^1.0.0'', JStr ''^1.1.0''),
           (JStr ''^1.1.0'', JStr ''^2.0.0'')] \<and>
        cr_previous_effective (hd (changes st)) = JNull \<and>
        cr_previous_effective (changes st ! Suc 0) = cr_effective_version (changes st ! 0) \<and>
        cr_previous_effective (changes st ! Suc 1) = cr_effective_version (changes st ! 1)"
proof -
  have d: "\<not> isl (track_commits default_package_name ''account-page'' initial_state bump_history)"
    by code_simp
  then obtain st where st: "track_commits default_package_name ''account-page'' initial_state
      bump_history = Inr st"
    by (cases "track_commits default_package_name ''account-page'' initial_state bump_history")
       auto
  have e: "map (\<lambda>r. (cr_previous_effective r, cr_effective_version r))
      (changes (projr (track_commits default_package_name ''account-page'' initial_state
         bump_history))) =
      [(JNull, JStr ''^1.0.0''), (JStr ''^1.0.0'', JStr ''^1.1.0''),
       (JStr ''^1.1.0'', JStr ''^2.0.0'')]"
    by code_simp
  then have g: "map (\<lambda>r. (cr_previous_effective r, cr_effective_version r)) (changes st) =
      [(JNull, JStr ''^1.0.0''), (JStr ''^1.0.0'', JStr ''^1.1.0''),
       (JStr ''^1.1.0'', JStr ''^2.0.0'')]"
    using st by simp
  have "length (changes (projr (track_commits default_package_name ''account-page''
      initial_state bump_history))) = 3"
    by code_simp
  then have len: "length (changes st) = 3"
    using st by simp
  have "string_or_none (cr_effective_version (changes (projr (track_commits
      default_package_name ''account-page'' initial_state bump_history)) ! 0))"
    by code_simp
  then have s0: "string_or_none (cr_effective_version (changes st ! 0))"
    using st by simp
  have "string_or_none (cr_effective_version (changes (projr (track_commits
      default_package_name ''account-page'' initial_state bump_history)) ! 1))"
    by code_simp
  then have s1: "string_or_none (cr_effective_version (changes st ! 1))"
    using st by simp
  have ne: "changes st \<noteq> []" using len by auto
  note t = previous_effective_is_preceding_effective
    [of default_package_name "''account-page''" bump_history, THEN conjunct1, rule_format, OF st]
  have h0: "cr_previous_effective (hd (changes st)) = JNull"
    using t ne by blast
  have h1: "cr_previous_effective (changes st ! Suc 0) = cr_effective_version (changes st ! 0)"
    using t s0 len by simp
  have h2: "cr_previous_effective (changes st ! Suc 1) = cr_effective_version (changes st ! 1)"
    using t s1 len by simp
  show ?thesis
    using st g h0 h1 h2 by (intro exI [of _ st]) (simp only: simp_thms)
qed

subsection \<open>Normalised and raw versions\<close>

lemma set_dict_set: "set (dict_set m k v) \<subseteq> insert (k, v) (set m)"
  by (induction m) (auto split: if_splits)

lemma load_releases_keys_aux:
  assumes "\<forall>(k, r)\<in>set acc. k = lstrip_range (rel_version r)"
  shows "\<forall>(k, r)\<in>set (fold (\<lambda>(version, release_date) rel.
             dict_set rel (lstrip_range version) \<lparr>date = release_date, rel_version = version\<rparr>)
           entries acc). k = lstrip_range (rel_version r)"
  using assms
proof (induction entries arbitrary: acc)
  case Nil
  then show ?case by simp
next
  case (Cons e entries)
  obtain version release_date where e: "e = (version, release_date)" by (cases e)
  have "\<forall>(k, r)\<in>set (dict_set acc (lstrip_range version)
        \<lparr>date = release_date, rel_version = version\<rparr>). k = lstrip_range (rel_version r)"
    using Cons.prems
      set_dict_set [of acc "lstrip_range version" "\<lparr>date = release_date, rel_version = version\<rparr>"]
    by auto
  from Cons.IH [OF this] show ?case by (simp add: e)
qed

lemma load_releases_keys:
  "(k, r) \<in> set (load_releases entries) \<Longrightarrow> k = lstrip_range (rel_version r)"
  using load_releases_keys_aux [of "[]" entries] by (auto simp: load_releases_def)

lemma raw_changes_append:
  "raw_changes l (xs @ ys) = raw_changes l xs @ raw_changes (last (l # raw_changes l xs)) ys"
  by (induction xs arbitrary: l) auto

lemma adoption_step_changes:
  assumes "adoption_step pkg (ads, l) e = Inr (ads', l')"
  shows "\<exists>new. ads' = ads @ new \<and>
           (\<forall>a\<in>set new. version a = lstrip_range (raw_version a)) \<and>
           map (\<lambda>a. JStr (raw_version a)) new = raw_changes l [resolved_version pkg e] \<and>
           l' = last (l # raw_changes l [resolved_version pkg e])"
proof (cases "get_version_at_commit pkg (le_manifest e)")
  case (Inl err)
  then show ?thesis using assms by (simp add: adoption_step_def bindE_Inl)
next
  case (Inr v)
  then have rv: "resolved_version pkg e = v" by (simp add: resolved_version_def)
  show ?thesis
  proof (cases "truthy v \<and> py_ne v l")
    case False
    then show ?thesis
      using assms Inr by (auto simp: adoption_step_def bindE_Inr rv)
  next
    case True
    then show ?thesis
      using assms Inr by (cases v) (auto simp: adoption_step_def bindE_Inr rv)
  qed
qed

lemma adoption_loop_changes:
  "adoption_loop pkg (ads, l) es = Inr (ads', l') \<Longrightarrow>
     \<exists>new. ads' = ads @ new \<and>
       (\<forall>a\<in>set new. version a = lstrip_range (raw_version a)) \<and>
       map (\<lambda>a. JStr (raw_version a)) new = raw_changes l (map (resolved_version pkg) es) \<and>
       l' = last (l # raw_changes l (map (resolved_version pkg) es))"
proof (induction es arbitrary: ads l)
  case Nil
  then show ?case by simp
next
  case (Cons e es)
  from Cons.prems obtain ads1 l1 where s1: "adoption_step pkg (ads, l) e = Inr (ads1, l1)"
    and rest: "adoption_loop pkg (ads1, l1) es = Inr (ads', l')"
    by (auto split: sum.splits)
  from adoption_step_changes [OF s1] obtain new1 where
    n1: "ads1 = ads @ new1" "\<forall>a\<in>set new1. version a = lstrip_range (raw_version a)"
    "map (\<lambda>a. JStr (raw_version a)) new1 = raw_changes l [resolved_version pkg e]"
    "l1 = last (l # raw_changes l [resolved_version pkg e])"
    by blast
  from Cons.IH [OF rest] obtain new2 where
    n2: "ads' = ads1 @ new2" "\<forall>a\<in>set new2. version a = lstrip_range (raw_version a)"
    "map (\<lambda>a. JStr (raw_version a)) new2 = raw_changes l1 (map (resolved_version pkg) es)"
    "l' = last (l1 # raw_changes l1 (map (resolved_version pkg) es))"
    by blast
  have split: "raw_changes l (map (resolved_version pkg) (e # es)) =
      raw_changes l [resolved_version pkg e] @ raw_changes l1 (map (resolved_version pkg) es)"
    using raw_changes_append [of l "[resolved_version pkg e]" "map (resolved_version pkg) es"]
    by (simp add: n1(4))
  have "ads' = ads @ (new1 @ new2)" using n1(1) n2(1) by simp
  moreover have "\<forall>a\<in>set (new1 @ new2). version a = lstrip_range (raw_version a)"
    using n1(2) n2(2) by auto
  moreover have "map (\<lambda>a. JStr (raw_version a)) (new1 @ new2) =
      raw_changes l (map (resolved_version pkg) (e # es))"
    unfolding split using n1(3) n2(3) by simp
  moreover have "l' = last (l # raw_changes l (map (resolved_version pkg) (e # es)))"
    unfolding split using n2(4) n1(4) by (simp add: last_append)
  ultimately show ?case by blast
qed

lemma get_repo_adoptions_changes:
  assumes "get_repo_adoptions pkg (AdoptionLog es) = Inr ads"
  shows "(\<forall>a\<in>set ads. version a = lstrip_range (raw_version a)) \<and>
         map (\<lambda>a. JStr (raw_version a)) ads = raw_changes JNull (map (resolved_version pkg) es)"
proof (cases "adoption_loop pkg ([], JNull) es")
  case (Inl err)
  then show ?thesis using assms by (simp add: get_repo_adoptions_def bindE_Inl)
next
  case (Inr p)
  obtain ads' l' where p: "p = (ads', l')" by (cases p)
  have "ads' = ads" using assms Inr p by (simp add: get_repo_adoptions_def bindE_Inr)
  then show ?thesis
    using adoption_loop_changes [of pkg "[]" JNull es ads' l'] Inr p by auto
qed

lemma transitions_in_parsed:
  "(p, c, v) \<in> set (transitions q xs) \<Longrightarrow> (c, v) \<in> set xs"
proof (induction xs arbitrary: q)
  case Nil
  then show ?case by simp
next
  case (Cons x xs)
  obtain c' v' where x: "x = (c', v')" by (cases x)
  from Cons.prems
  have "(p, c, v) = (q, c', v') \<or> (p, c, v) \<in> set (transitions v' xs)"
    by (simp add: x split: if_splits)
  then show ?case
    using Cons.IH [of v'] by (auto simp: x)
qed

lemma emitted_in_parsed:
  assumes "list_all2 (emitted_for repo) rs ts" "r \<in> set rs"
  shows "\<exists>(p, c, v)\<in>set ts. cr_effective_version r = effective_of v"
proof -
  from assms(2) obtain i where i: "i < length rs" "rs ! i = r"
    by (auto simp: in_set_conv_nth)
  have len: "length rs = length ts"
    using assms(1) by (rule list_all2_lengthD)
  have e: "emitted_for repo r (ts ! i)"
    using list_all2_nthD [OF assms(1) i(1)] i(2) by simp
  obtain p c v where t: "ts ! i = (p, c, v)" by (cases "ts ! i")
  have "(p, c, v) \<in> set ts"
    using i(1) len t by (metis nth_mem)
  moreover have "cr_effective_version r = effective_of v"
    using e emitted_for_fields [of repo r p c v] by (simp add: t)
  ultimately show ?thesis by auto
qed

lemma emitted_for_constituents:
  "emitted_for repo r (p, c, v) \<Longrightarrow>
     cr_dependency_version r = dependency v \<and> cr_override_version r = override v \<and>
     cr_transitive_overrides r = transitive_overrides v"
  by (cases "get_commit_info (gc_info c)") (auto simp: emitted_for_def)

lemma emitted_for1_constituents:
  "emitted_for1 r (p, c, v) \<Longrightarrow>
     c1_dependency_version r = dependency v \<and> c1_override_version r = override v"
  by (cases "get_commit_info (gc_info c)") (auto simp: emitted_for1_def)

lemma parsed_commit_resolves:
  "(c', v) \<in> set (parsed_commit pkg c) \<Longrightarrow>
     c' = c \<and> extract_component_versions pkg (get_package_json_at_commit (gc_manifest c)) = Inr v"
  by (cases "truthy (get_package_json_at_commit (gc_manifest c))";
      cases "extract_component_versions pkg (get_package_json_at_commit (gc_manifest c))")
     (simp_all add: parsed_commit_def)

lemma parsed_commits_resolve:
  "(c, v) \<in> set (parsed_commits pkg cs) \<Longrightarrow>
     c \<in> set cs \<and>
     extract_component_versions pkg (get_package_json_at_commit (gc_manifest c)) = Inr v"
  using parsed_commit_resolves by (fastforce simp: parsed_commits_def)

lemma emitted_record_raw:
  assumes "list_all2 (emitted_for repo) rs ts" "r \<in> set rs"
  shows "\<exists>(p, c, v)\<in>set ts.
           cr_effective_version r = effective_of v \<and> cr_previous_effective r = effective_of p \<and>
           cr_dependency_version r = dependency v \<and> cr_override_version r = override v \<and>
           cr_transitive_overrides r = transitive_overrides v"
proof -
  from assms(2) obtain i where i: "i < length rs" "rs ! i = r"
    by (auto simp: in_set_conv_nth)
  have len: "length rs = length ts"
    using assms(1) by (rule list_all2_lengthD)
  have e: "emitted_for repo r (ts ! i)"
    using list_all2_nthD [OF assms(1) i(1)] i(2) by simp
  obtain p c v where t: "ts ! i = (p, c, v)" by (cases "ts ! i")
  have "(p, c, v) \<in> set ts"
    using i(1) len t by (metis nth_mem)
  moreover have "cr_effective_version r = effective_of v \<and> cr_previous_effective r = effective_of p \<and>
           cr_dependency_version r = dependency v \<and> cr_override_version r = override v \<and>
           cr_transitive_overrides r = transitive_overrides v"
    using e emitted_for_fields [of repo r p c v] emitted_for_constituents [of repo r p c v]
    by (simp add: t)
  ultimately show ?thesis by auto
qed

lemma emitted_record1_raw:
  assumes "list_all2 emitted_for1 rs ts" "r \<in> set rs"
  shows "\<exists>(p, c, v)\<in>set ts.
           c1_effective_version r = effective_of v \<and> c1_previous_effective r = effective_of p \<and>
           c1_dependency_version r = dependency v \<and> c1_override_version r = override v"
proof -
  from assms(2) obtain i where i: "i < length rs" "rs ! i = r"
    by (auto simp: in_set_conv_nth)
  have len: "length rs = length ts"
    using assms(1) by (rule list_all2_lengthD)
  have e: "emitted_for1 r (ts ! i)"
    using list_all2_nthD [OF assms(1) i(1)] i(2) by simp
  obtain p c v where t: "ts ! i = (p, c, v)" by (cases "ts ! i")
  have "(p, c, v) \<in> set ts"
    using i(1) len t by (metis nth_mem)
  moreover have "c1_effective_version r = effective_of v \<and> c1_previous_effective r = effective_of p \<and>
           c1_dependency_version r = dependency v \<and> c1_override_version r = override v"
    using e emitted_for1_fields [of r p c v] emitted_for1_constituents [of r p c v]
    by (simp add: t)
  ultimately show ?thesis by auto
qed

lemma effective_of_is_constituent:
  "effective_of v = override v \<or> effective_of v = dependency v \<or>
   effective_of v \<in> snd ` set (transitive_overrides v)"
  by (cases "transitive_overrides v") (auto simp: effective_of_def Let_def)

lemma py_ne_strings: "py_ne (JStr a) (JStr b) \<longleftrightarrow> a \<noteq> b"
  by (simp add: py_ne_def py_eq_def)

lemma dependency_transition:
  "is_transition \<lparr>dependency = JStr a, override = JNull, transitive_overrides = []\<rparr>
                 \<lparr>dependency = JStr b, override = JNull, transitive_overrides = []\<rparr> \<longleftrightarrow>
     a \<noteq> b"
  by (auto simp: is_transition_def versions_changed_def effective_of_def Let_def py_ne_def
      py_eq_def transitive_ne_def)

lemma tracker_records_raw:
  assumes "track_commits pkg repo initial_state cs = Inr st"
  shows "list_all2 (emitted_for repo) (changes st)
           (transitions initial_versions (parsed_commits pkg cs)) \<and>
         (\<forall>r\<in>set (changes st). \<exists>(c, v)\<in>set (parsed_commits pkg cs).
            extract_component_versions pkg (get_package_json_at_commit (gc_manifest c)) = Inr v \<and>
            cr_effective_version r = effective_of v \<and>
            cr_dependency_version r = dependency v \<and>
            cr_override_version r = override v \<and>
            cr_transitive_overrides r = transitive_overrides v)"
proof
  show l: "list_all2 (emitted_for repo) (changes st)
           (transitions initial_versions (parsed_commits pkg cs))"
    by (rule track_commits_initial(1) [OF assms])
  show "\<forall>r\<in>set (changes st). \<exists>(c, v)\<in>set (parsed_commits pkg cs).
            extract_component_versions pkg (get_package_json_at_commit (gc_manifest c)) = Inr v \<and>
            cr_effective_version r = effective_of v \<and>
            cr_dependency_version r = dependency v \<and>
            cr_override_version r = override v \<and>
            cr_transitive_overrides r = transitive_overrides v"
  proof
    fix r assume "r \<in> set (changes st)"
    from emitted_record_raw [OF l this]
    obtain p c v where t: "(p, c, v) \<in> set (transitions initial_versions (parsed_commits pkg cs))"
      and f: "cr_effective_version r = effective_of v" "cr_dependency_version r = dependency v"
        "cr_override_version r = override v" "cr_transitive_overrides r = transitive_overrides v"
      by auto
    have m: "(c, v) \<in> set (parsed_commits pkg cs)"
      using t by (rule transitions_in_parsed)
    have "extract_component_versions pkg (get_package_json_at_commit (gc_manifest c)) = Inr v"
      using parsed_commits_resolve [OF m] by simp
    with m f show "\<exists>(c, v)\<in>set (parsed_commits pkg cs).
            extract_component_versions pkg (get_package_json_at_commit (gc_manifest c)) = Inr v \<and>
            cr_effective_version r = effective_of v \<and>
            cr_dependency_version r = dependency v \<and>
            cr_override_version r = override v \<and>
            cr_transitive_overrides r = transitive_overrides v"
      by blast
  qed
qed

lemma tracker1_records_raw:
  assumes "track_commits1 pkg initial_state1 cs = Inr st"
  shows "list_all2 emitted_for1 (changes1 st)
           (transitions initial_versions (parsed_commits pkg cs)) \<and>
         (\<forall>r\<in>set (changes1 st). \<exists>(c, v)\<in>set (parsed_commits pkg cs).
            extract_component_versions pkg (get_package_json_at_commit (gc_manifest c)) = Inr v \<and>
            c1_effective_version r = effective_of v \<and>
            c1_dependency_version r = dependency v \<and>
            c1_override_version r = override v)"
proof
  show l: "list_all2 emitted_for1 (changes1 st)
           (transitions initial_versions (parsed_commits pkg cs))"
    by (rule track_commits1_initial(1) [OF assms])
  show "\<forall>r\<in>set (changes1 st). \<exists>(c, v)\<in>set (parsed_commits pkg cs).
            extract_component_versions pkg (get_package_json_at_commit (gc_manifest c)) = Inr v \<and>
            c1_effective_version r = effective_of v \<and>
            c1_dependency_version r = dependency v \<and>
            c1_override_version r = override v"
  proof
    fix r assume "r \<in> set (changes1 st)"
    from emitted_record1_raw [OF l this]
    obtain p c v where t: "(p, c, v) \<in> set (transitions initial_versions (parsed_commits pkg cs))"
      and f: "c1_effective_version r = effective_of v" "c1_dependency_version r = dependency v"
        "c1_override_version r = override v"
      by auto
    have m: "(c, v) \<in> set (parsed_commits pkg cs)"
      using t by (rule transitions_in_parsed)
    have "extract_component_versions pkg (get_package_json_at_commit (gc_manifest c)) = Inr v"
      using parsed_commits_resolve [OF m] by simp
    with m f show "\<exists>(c, v)\<in>set (parsed_commits pkg cs).
            extract_component_versions pkg (get_package_json_at_commit (gc_manifest c)) = Inr v \<and>
            c1_effective_version r = effective_of v \<and>
            c1_dependency_version r = dependency v \<and>
            c1_override_version r = override v"
      by blast
  qed
qed

lemma resolution_keeps_entries:
  assumes "well_formed_manifest (JObj kvs)"
  shows "\<exists>v. extract_component_versions pkg (JObj kvs) = Inr v \<and>
           override v = entry_of (overrides_entries kvs) pkg \<and>
           transitive_overrides v = transitive_of pkg (overrides_entries kvs) \<and>
           (dependency v = entry_of (section_entries ''dependencies'' kvs) pkg \<or>
            dependency v = entry_of (section_entries ''devDependencies'' kvs) pkg)"
  using extract_well_formed [OF assms, of pkg] by (auto simp: Let_def)

text \<open>
  Claim C6, amended. What is stored is stripped where the analyzer stores it: every key
  of the release table is its entry's raw version without the leading \<^verbatim>\<open>^\<close> and
  \<^verbatim>\<open>~\<close>, and every adoption record's \<open>version\<close> is its \<open>raw_version\<close> stripped, the
  raw value being kept beside it. What is compared is the raw value: the adoption records
  are exactly the resolved values that are truthy and differ (\<^verbatim>\<open>!=\<close>) from the raw
  value of the record before. The two trackers strip nothing. The records of
  \<^verbatim>\<open>track_repo_version_changes\<close> and those of \<^verbatim>\<open>track_version_changes\<close> are, one for
  one, the transitions of the resolved snapshots, and each record stores the dependency,
  the override and the effective version of the snapshot \<open>extract_component_versions\<close>
  resolved at its commit. On a well-formed manifest that snapshot holds the entries of the
  manifest as they stand; the effective version is one of the snapshot's values; and the
  comparison that makes a transition is \<^verbatim>\<open>!=\<close> on those values, so two strings that
  differ, be it in the prefix only, differ for it.
\<close>

theorem stored_version_is_stripped_comparison_is_raw:
  "(\<forall>k r. (k, r) \<in> set (load_releases entries) \<longrightarrow> k = lstrip_range (rel_version r)) \<and>
   (\<forall>ads. get_repo_adoptions pkg (AdoptionLog es) = Inr ads \<longrightarrow>
      (\<forall>a\<in>set ads. version a = lstrip_range (raw_version a)) \<and>
      map (\<lambda>a. JStr (raw_version a)) ads = raw_changes JNull (map (resolved_version pkg) es)) \<and>
   (\<forall>st. track_commits pkg repo initial_state cs = Inr st \<longrightarrow>
      list_all2 (emitted_for repo) (changes st)
        (transitions initial_versions (parsed_commits pkg cs)) \<and>
      (\<forall>r\<in>set (changes st). \<exists>(c, v)\<in>set (parsed_commits pkg cs).
         extract_component_versions pkg (get_package_json_at_commit (gc_manifest c)) = Inr v \<and>
         cr_effective_version r = effective_of v \<and>
         cr_dependency_version r = dependency v \<and>
         cr_override_version r = override v \<and>
         cr_transitive_overrides r = transitive_overrides v)) \<and>
   (\<forall>st. track_commits1 pkg initial_state1 cs = Inr st \<longrightarrow>
      list_all2 emitted_for1 (changes1 st)
        (transitions initial_versions (parsed_commits pkg cs)) \<and>
      (\<forall>r\<in>set (changes1 st). \<exists>(c, v)\<in>set (parsed_commits pkg cs).
         extract_component_versions pkg (get_package_json_at_commit (gc_manifest c)) = Inr v \<and>
         c1_effective_version r = effective_of v \<and>
         c1_dependency_version r = dependency v \<and>
         c1_override_version r = override v)) \<and>
   (well_formed_manifest (JObj kvs) \<longrightarrow>
      (\<exists>v. extract_component_versions pkg (JObj kvs) = Inr v \<and>
           override v = entry_of (overrides_entries kvs) pkg \<and>
           transitive_overrides v = transitive_of pkg (overrides_entries kvs) \<and>
           (dependency v = entry_of (section_entries ''dependencies'' kvs) pkg \<or>
            dependency v = entry_of (section_entries ''devDependencies'' kvs) pkg))) \<and>
   (\<forall>v. effective_of v = override v \<or> effective_of v = dependency v \<or>
        effective_of v \<in> snd ` set (transitive_overrides v)) \<and>
   (\<forall>previous v. is_transition previous v \<longleftrightarrow>
        versions_changed v previous \<and> py_ne (effective_of v) (effective_of previous)) \<and>
   (\<forall>a b. py_ne (JStr a) (JStr b) \<longleftrightarrow> a \<noteq> b) \<and>
   (\<forall>a b. is_transition
             \<lparr>dependency = JStr a, override = JNull, transitive_overrides = []\<rparr>
             \<lparr>dependency = JStr b, override = JNull, transitive_overrides = []\<rparr> \<longleftrightarrow>
          a \<noteq> b)"
proof -
  have rel: "\<forall>k r. (k, r) \<in> set (load_releases entries) \<longrightarrow> k = lstrip_range (rel_version r)"
    using load_releases_keys by blast
  have ads: "\<forall>ads. get_repo_adoptions pkg (AdoptionLog es) = Inr ads \<longrightarrow>
      (\<forall>a\<in>set ads. version a = lstrip_range (raw_version a)) \<and>
      map (\<lambda>a. JStr (raw_version a)) ads = raw_changes JNull (map (resolved_version pkg) es)"
    using get_repo_adoptions_changes by blast
  have t0: "\<forall>st. track_commits pkg repo initial_state cs = Inr st \<longrightarrow>
      list_all2 (emitted_for repo) (changes st)
        (transitions initial_versions (parsed_commits pkg cs)) \<and>
      (\<forall>r\<in>set (changes st). \<exists>(c, v)\<in>set (parsed_commits pkg cs).
         extract_component_versions pkg (get_package_json_at_commit (gc_manifest c)) = Inr v \<and>
         cr_effective_version r = effective_of v \<and>
         cr_dependency_version r = dependency v \<and>
         cr_override_version r = override v \<and>
         cr_transitive_overrides r = transitive_overrides v)"
    using tracker_records_raw by blast
  have t1: "\<forall>st. track_commits1 pkg initial_state1 cs = Inr st \<longrightarrow>
      list_all2 emitted_for1 (changes1 st)
        (transitions initial_versions (parsed_commits pkg cs)) \<and>
      (\<forall>r\<in>set (changes1 st). \<exists>(c, v)\<in>set (parsed_commits pkg cs).
         extract_component_versions pkg (get_package_json_at_commit (gc_manifest c)) = Inr v \<and>
         c1_effective_version r = effective_of v \<and>
         c1_dependency_version r = dependency v \<and>
         c1_override_version r = override v)"
    using tracker1_records_raw by blast
  have res: "well_formed_manifest (JObj kvs) \<longrightarrow>
      (\<exists>v. extract_component_versions pkg (JObj kvs) = Inr v \<and>
           override v = entry_of (overrides_entries kvs) pkg \<and>
           transitive_overrides v = transitive_of pkg (overrides_entries kvs) \<and>
           (dependency v = entry_of (section_entries ''dependencies'' kvs) pkg \<or>
            dependency v = entry_of (section_entries ''devDependencies'' kvs) pkg))"
    using resolution_keeps_entries by blast
  have eff: "\<forall>v. effective_of v = override v \<or> effective_of v = dependency v \<or>
        effective_of v \<in> snd ` set (transitive_overrides v)"
    using effective_of_is_constituent by blast
  have tr: "\<forall>previous v. is_transition previous v \<longleftrightarrow>
        versions_changed v previous \<and> py_ne (effective_of v) (effective_of previous)"
    by (simp add: is_transition_def)
  have ne: "\<forall>a b. py_ne (JStr a) (JStr b) \<longleftrightarrow> a \<noteq> b"
    by (simp add: py_ne_strings)
  have dep: "\<forall>a b. is_transition
             \<lparr>dependency = JStr a, override = JNull, transitive_overrides = []\<rparr>
             \<lparr>dependency = JStr b, override = JNull, transitive_overrides = []\<rparr> \<longleftrightarrow>
          a \<noteq> b"
    by (simp add: dependency_transition)
  show ?thesis
    by (rule conjI [OF rel conjI [OF ads conjI [OF t0 conjI [OF t1 conjI [OF res
          conjI [OF eff conjI [OF tr conjI [OF ne dep]]]]]]]])
qed

text \<open>
  Claim C6 as stated fails at its consequence: two consecutive commits whose manifest
  versions are \<^verbatim>\<open>^1.0.0\<close> and \<^verbatim>\<open>1.0.0\<close> strip to the same string, yet the analyzer
  makes an adoption record of each, and the tracker a change record of each, with the
  prefix kept.
\<close>

theorem prefix_only_edit_makes_a_record:
  "get_repo_adoptions default_package_name (AdoptionLog prefix_edit_log) =
     Inr prefix_edit_adoptions \<and>
   length prefix_edit_adoptions = 2 \<and>
   lstrip_range ''^1.0.0'' = lstrip_range ''1.0.0'' \<and>
   map raw_version prefix_edit_adoptions = [''^1.0.0'', ''1.0.0''] \<and>
   map version prefix_edit_adoptions = [''1.0.0'', ''1.0.0''] \<and>
   map cr_effective_version
     (changes (projr (track_commits default_package_name ''account-page'' initial_state
        prefix_edit_history))) = [JStr ''^1.0.0'', JStr ''1.0.0'']"
  by code_simp

text \<open>A release written \<^verbatim>\<open>^1.2.0\<close> is stored under 1.2.0; the adoption records of
  the prefix-only edit; and the records the two trackers make of the same edit, with the
  prefix kept.\<close>

theorem stored_version_is_stripped_comparison_is_raw_witness:
  "map fst (load_releases [(''^1.2.0'', mk_datetime 2024 3 1 0 0 0)]) = [''1.2.0''] \<and>
   map rel_version (map snd (load_releases [(''^1.2.0'', mk_datetime 2024 3 1 0 0 0)])) = [''^1.2.0''] \<and>
   map (resolved_version default_package_name) prefix_edit_log = [JStr ''^1.0.0'', JStr ''1.0.0''] \<and>
   raw_changes JNull [JStr ''^1.0.0'', JStr ''1.0.0''] = [JStr ''^1.0.0'', JStr ''1.0.0''] \<and>
   map (\<lambda>a. JStr (raw_version a)) prefix_edit_adoptions = [JStr ''^1.0.0'', JStr ''1.0.0''] \<and>
   list_all (\<lambda>a. version a = lstrip_range (raw_version a)) prefix_edit_adoptions \<and>
   map (\<lambda>r. (cr_previous_effective r, cr_effective_version r, cr_dependency_version r))
     (changes (projr (track_commits default_package_name ''account-page'' initial_state
        prefix_edit_history))) =
     [(JNull, JStr ''^1.0.0'', JStr ''^1.0.0''), (JStr ''^1.0.0'', JStr ''1.0.0'', JStr ''1.0.0'')] \<and>
   map (\<lambda>r. (c1_previous_effective r, c1_effective_version r, c1_dependency_version r))
     (changes1 (projr (track_commits1 default_package_name initial_state1
        prefix_edit_history))) =
     [(JNull, JStr ''^1.0.0'', JStr ''^1.0.0''), (JStr ''^1.0.0'', JStr ''1.0.0'', JStr ''1.0.0'')] \<and>
   is_transition
     \<lparr>dependency = JStr ''^1.0.0'', override = JNull, transitive_overrides = []\<rparr>
     \<lparr>dependency = JStr ''1.0.0'', override = JNull, transitive_overrides = []\<rparr>"
proof -
  have a: "get_repo_adoptions default_package_name (AdoptionLog prefix_edit_log) =
     Inr prefix_edit_adoptions"
    by code_simp
  have b: "map fst (load_releases [(''^1.2.0'', mk_datetime 2024 3 1 0 0 0)]) = [''1.2.0'']"
    "map rel_version (map snd (load_releases [(''^1.2.0'', mk_datetime 2024 3 1 0 0 0)])) = [''^1.2.0'']"
    by code_simp+
  have c: "map (resolved_version default_package_name) prefix_edit_log =
      [JStr ''^1.0.0'', JStr ''1.0.0'']"
    by code_simp
  have d: "raw_changes JNull [JStr ''^1.0.0'', JStr ''1.0.0''] = [JStr ''^1.0.0'', JStr ''1.0.0'']"
    by code_simp
  note whole = stored_version_is_stripped_comparison_is_raw
    [where pkg = default_package_name and es = prefix_edit_log and entries = "[]"
       and repo = "''account-page''" and cs = "[]" and kvs = "[]"]
  note t = whole [THEN conjunct2, THEN conjunct1, rule_format, OF a]
  have e: "map (\<lambda>a. JStr (raw_version a)) prefix_edit_adoptions = [JStr ''^1.0.0'', JStr ''1.0.0'']"
    using t c d by simp
  have f: "list_all (\<lambda>a. version a = lstrip_range (raw_version a)) prefix_edit_adoptions"
    using t by (simp add: list_all_iff)
  have g: "map (\<lambda>r. (cr_previous_effective r, cr_effective_version r, cr_dependency_version r))
     (changes (projr (track_commits default_package_name ''account-page'' initial_state
        prefix_edit_history))) =
     [(JNull, JStr ''^1.0.0'', JStr ''^1.0.0''), (JStr ''^1.0.0'', JStr ''1.0.0'', JStr ''1.0.0'')]"
    by code_simp
  have h: "map (\<lambda>r. (c1_previous_effective r, c1_effective_version r, c1_dependency_version r))
     (changes1 (projr (track_commits1 default_package_name initial_state1
        prefix_edit_history))) =
     [(JNull, JStr ''^1.0.0'', JStr ''^1.0.0''), (JStr ''^1.0.0'', JStr ''1.0.0'', JStr ''1.0.0'')]"
    by code_simp
  have ne: "''^1.0.0'' \<noteq> ''1.0.0''" by simp
  have i: "is_transition
     \<lparr>dependency = JStr ''^1.0.0'', override = JNull, transitive_overrides = []\<rparr>
     \<lparr>dependency = JStr ''1.0.0'', override = JNull, transitive_overrides = []\<rparr>"
    using whole [THEN conjunct2, THEN conjunct2, THEN conjunct2, THEN conjunct2, THEN conjunct2,
      THEN conjunct2, THEN conjunct2, THEN conjunct2, rule_format, of "''^1.0.0''" "''1.0.0''"] ne
    by simp
  show ?thesis
    by (rule conjI [OF b(1) conjI [OF b(2) conjI [OF c conjI [OF d conjI [OF e conjI [OF f
          conjI [OF g conjI [OF h i]]]]]]]])
qed

subsection \<open>The orchestrator\<close>

lemma map_of_dict_set: "map_of (dict_set m k v) = (map_of m)(k \<mapsto> v)"
  by (induction m) (auto simp: fun_eq_iff)

lemma track_result_name:
  "track_repo_version_changes pkg r = Inr res \<Longrightarrow> rr_repository res = repo_name r"
  by (auto simp: track_repo_version_changes_def error_result_def bindE_def
      split: git_log.splits sum.splits py_error.splits prod.splits)

lemma merge_results_map:
  "merge_results pkg acc rs = Inr out \<Longrightarrow>
     (\<forall>r\<in>set rs. \<exists>res. track_repo_version_changes pkg r = Inr res) \<and>
     map_of out =
       map_of acc ++
       map_of (rev (map (\<lambda>r. (repo_name r, projr (track_repo_version_changes pkg r))) rs))"
proof (induction rs arbitrary: acc)
  case Nil
  then show ?case by simp
next
  case (Cons r rs)
  from Cons.prems obtain res where res: "track_repo_version_changes pkg r = Inr res"
    and rest: "merge_results pkg (dict_set acc (rr_repository res) res) rs = Inr out"
    by (auto split: sum.splits)
  have name: "rr_repository res = repo_name r"
    using res by (rule track_result_name)
  from Cons.IH [OF rest] have ih:
    "\<forall>r\<in>set rs. \<exists>res. track_repo_version_changes pkg r = Inr res"
    "map_of out = map_of (dict_set acc (rr_repository res) res) ++
       map_of (rev (map (\<lambda>r. (repo_name r, projr (track_repo_version_changes pkg r))) rs))"
    by simp_all
  have "map_of out = map_of acc ++
       map_of (rev (map (\<lambda>r. (repo_name r, projr (track_repo_version_changes pkg r))) (r # rs)))"
    unfolding ih(2) map_of_dict_set name
    by (simp add: res map_add_assoc [symmetric] map_add_upd_left fun_eq_iff map_add_def
        split: option.splits)
  then show ?case using ih(1) res by simp
qed

lemma merge_results_total:
  "\<forall>r\<in>set rs. \<exists>res. track_repo_version_changes pkg r = Inr res \<Longrightarrow>
     \<exists>out. merge_results pkg acc rs = Inr out"
  by (induction rs arbitrary: acc) auto

lemma map_of_rev_distinct:
  "distinct (map fst xs) \<Longrightarrow> map_of (rev xs) = map_of xs"
  by (rule map_of_inject_set [THEN iffD2]) (simp_all add: rev_map [symmetric])

lemma map_of_mset_eq:
  assumes "mset xs = mset ys" "distinct (map fst xs)"
  shows "map_of xs = map_of ys"
proof -
  have "mset (map fst xs) = mset (map fst ys)"
    using assms(1) by (metis mset_map)
  then have "distinct (map fst ys)"
    using assms(2) by (metis mset_eq_imp_distinct_iff)
  moreover have "set xs = set ys"
    using assms(1) by (rule mset_eq_setD)
  ultimately show ?thesis
    using assms(2) by (simp add: map_of_inject_set)
qed

lemma merge_results_lookup:
  assumes "merge_results pkg [] rs = Inr out" "distinct (map repo_name rs)"
  shows "map_of out = map_of (map (\<lambda>r. (repo_name r, projr (track_repo_version_changes pkg r))) rs)"
proof -
  have d: "distinct (map fst (map (\<lambda>r. (repo_name r, projr (track_repo_version_changes pkg r))) rs))"
    using assms(2) by (simp add: comp_def)
  show ?thesis
    using merge_results_map [OF assms(1)] map_of_rev_distinct [OF d] by simp
qed

text \<open>
  Claim C7, amended. The pool's tasks share no state, so a repository's result is the
  same in either mode; what the modes differ in is the order in which the main thread
  merges the results, any rearrangement \<open>completed\<close> of \<open>repos\<close>. For repositories
  with pairwise distinct directory names the two modes succeed together and then give the
  same mapping from name to result, whatever that order; every repository's result stands
  under its own name, and no other key exists.
\<close>

theorem concurrent_equals_sequential_for_distinct_names:
  assumes "distinct (map repo_name repos)" and "mset completed = mset repos"
  shows
   "(\<forall>s. process_repositories pkg repos False completed = Inr s \<longrightarrow>
       (\<exists>p. process_repositories pkg repos True completed = Inr p \<and> map_of p = map_of s)) \<and>
    (\<forall>p. process_repositories pkg repos True completed = Inr p \<longrightarrow>
       (\<exists>s. process_repositories pkg repos False completed = Inr s \<and> map_of s = map_of p)) \<and>
    (\<forall>s. process_repositories pkg repos False completed = Inr s \<longrightarrow>
       (\<forall>r\<in>set repos. \<exists>res. track_repo_version_changes pkg r = Inr res \<and>
                          map_of s (repo_name r) = Some res) \<and>
       dom (map_of s) = repo_name ` set repos)"
proof -
  let ?f = "\<lambda>r. (repo_name r, projr (track_repo_version_changes pkg r))"
  have set_eq: "set completed = set repos"
    using assms(2) by (rule mset_eq_setD)
  have dc: "distinct (map repo_name completed)"
    using assms by (metis mset_map mset_eq_imp_distinct_iff)
  have same: "map_of (map ?f completed) = map_of (map ?f repos)"
  proof (rule map_of_mset_eq)
    show "mset (map ?f completed) = mset (map ?f repos)"
      using assms(2) by (metis mset_map)
    show "distinct (map fst (map ?f completed))"
      using dc by (simp add: comp_def)
  qed
  have seq_par: "\<exists>p. merge_results pkg [] completed = Inr p \<and> map_of p = map_of s"
    if s: "merge_results pkg [] repos = Inr s" for s
  proof -
    have "\<forall>r\<in>set completed. \<exists>res. track_repo_version_changes pkg r = Inr res"
      using merge_results_map [OF s] set_eq by simp
    then obtain p where p: "merge_results pkg [] completed = Inr p"
      using merge_results_total by blast
    have "map_of p = map_of s"
      using merge_results_lookup [OF p dc] merge_results_lookup [OF s assms(1)] same by simp
    then show ?thesis using p by blast
  qed
  have par_seq: "\<exists>s. merge_results pkg [] repos = Inr s \<and> map_of s = map_of p"
    if p: "merge_results pkg [] completed = Inr p" for p
  proof -
    have "\<forall>r\<in>set repos. \<exists>res. track_repo_version_changes pkg r = Inr res"
      using merge_results_map [OF p] set_eq by simp
    then obtain s where s: "merge_results pkg [] repos = Inr s"
      using merge_results_total by blast
    have "map_of s = map_of p"
      using merge_results_lookup [OF p dc] merge_results_lookup [OF s assms(1)] same by simp
    then show ?thesis using s by blast
  qed
  have per_repo: "(\<forall>r\<in>set repos. \<exists>res. track_repo_version_changes pkg r = Inr res \<and>
                          map_of s (repo_name r) = Some res) \<and>
       dom (map_of s) = repo_name ` set repos"
    if s: "merge_results pkg [] repos = Inr s" for s
  proof -
    have d: "distinct (map fst (map ?f repos))"
      using assms(1) by (simp add: comp_def)
    have ok: "\<forall>r\<in>set repos. \<exists>res. track_repo_version_changes pkg r = Inr res"
      using merge_results_map [OF s] by simp
    have m: "map_of s = map_of (map ?f repos)"
      by (rule merge_results_lookup [OF s assms(1)])
    have "\<exists>res. track_repo_version_changes pkg r = Inr res \<and> map_of s (repo_name r) = Some res"
      if r: "r \<in> set repos" for r
    proof -
      obtain res where res: "track_repo_version_changes pkg r = Inr res"
        using ok r by blast
      have "(repo_name r, res) \<in> set (map ?f repos)"
        using r res by force
      then have "map_of (map ?f repos) (repo_name r) = Some res"
        using d by simp
      then show ?thesis using res m by simp
    qed
    moreover have "dom (map_of s) = repo_name ` set repos"
      unfolding m by (simp add: dom_map_of_conv_image_fst image_image)
    ultimately show ?thesis by blast
  qed
  show ?thesis
    using seq_par par_seq per_repo
    by (simp add: process_repositories_def)
qed

text \<open>
  Claim C7 as stated fails for two repositories of different paths and the same
  directory name: both results are written under the one key, the later write wins, and
  which one is later depends on the mode. Sequentially the second of the sorted list wins;
  concurrently, when that one completes first, the other does.
\<close>

theorem same_name_repositories_collide:
  "repo_path same_name_repo_a \<noteq> repo_path same_name_repo_b \<and>
   map (\<lambda>(name, res). (name, rr_path res, rr_current_version res))
     (projr (process_repositories default_package_name [same_name_repo_a, same_name_repo_b]
        False [same_name_repo_b, same_name_repo_a])) =
     [(''web'', ''/code/team-b/web'', Some (JStr ''2.0.0''))] \<and>
   map (\<lambda>(name, res). (name, rr_path res, rr_current_version res))
     (projr (process_repositories default_package_name [same_name_repo_a, same_name_repo_b]
        True [same_name_repo_b, same_name_repo_a])) =
     [(''web'', ''/code/team-a/web'', Some (JStr ''1.0.0''))] \<and>
   \<not> isl (process_repositories default_package_name [same_name_repo_a, same_name_repo_b]
        False [same_name_repo_b, same_name_repo_a]) \<and>
   \<not> isl (process_repositories default_package_name [same_name_repo_a, same_name_repo_b]
        True [same_name_repo_b, same_name_repo_a])"
  by code_simp

text \<open>Two repositories of different names, merged in either order.\<close>

theorem concurrent_equals_sequential_for_distinct_names_witness:
  "map fst (projr (process_repositories default_package_name [healthy_repo, unreadable_repo]
      False [unreadable_repo, healthy_repo])) = [''send-flow'', ''bills-page''] \<and>
   map fst (projr (process_repositories default_package_name [healthy_repo, unreadable_repo]
      True [unreadable_repo, healthy_repo])) = [''bills-page'', ''send-flow''] \<and>
   map_of (projr (process_repositories default_package_name [healthy_repo, unreadable_repo]
      True [unreadable_repo, healthy_repo])) =
   map_of (projr (process_repositories default_package_name [healthy_repo, unreadable_repo]
      False [unreadable_repo, healthy_repo]))"
proof -
  have a: "map fst (projr (process_repositories default_package_name [healthy_repo, unreadable_repo]
      False [unreadable_repo, healthy_repo])) = [''send-flow'', ''bills-page'']"
    by code_simp
  have b: "map fst (projr (process_repositories default_package_name [healthy_repo, unreadable_repo]
      True [unreadable_repo, healthy_repo])) = [''bills-page'', ''send-flow'']"
    by code_simp
  have d: "distinct (map repo_name [healthy_repo, unreadable_repo])"
    by code_simp
  have m: "mset [unreadable_repo, healthy_repo] = mset [healthy_repo, unreadable_repo]"
    by (simp add: add.commute)
  have ok: "\<not> isl (process_repositories default_package_name [healthy_repo, unreadable_repo]
      False [unreadable_repo, healthy_repo])"
    by code_simp
  then obtain s where s: "process_repositories default_package_name [healthy_repo, unreadable_repo]
      False [unreadable_repo, healthy_repo] = Inr s"
    by (cases "process_repositories default_package_name [healthy_repo, unreadable_repo]
      False [unreadable_repo, healthy_repo]") auto
  from concurrent_equals_sequential_for_distinct_names [OF d m, of default_package_name] s
  obtain p where p: "process_repositories default_package_name [healthy_repo, unreadable_repo]
      True [unreadable_repo, healthy_repo] = Inr p" "map_of p = map_of s"
    by blast
  have c: "map_of (projr (process_repositories default_package_name [healthy_repo, unreadable_repo]
      True [unreadable_repo, healthy_repo])) =
   map_of (projr (process_repositories default_package_name [healthy_repo, unreadable_repo]
      False [unreadable_repo, healthy_repo]))"
    using p s by simp
  show ?thesis
    by (rule conjI [OF a conjI [OF b c]])
qed

text \<open>
  Claim C8 at a repository whose history is readable and whose working copy holds a
  \<^verbatim>\<open>package.json\<close> that is not JSON: \<^verbatim>\<open>json.load\<close> raises after the loop, the
  handler of \<^verbatim>\<open>track_repo_version_changes\<close> catches \<^verbatim>\<open>CalledProcessError\<close> only, and
  the exception leaves \<^verbatim>\<open>process_repositories\<close> in either mode: no result is recorded
  for the repository and the run does not go on to the next one.
\<close>

theorem unparsable_working_copy_aborts_run:
  "track_repo_version_changes default_package_name broken_worktree_repo = Inl JSONDecodeError \<and>
   process_repositories default_package_name [broken_worktree_repo, healthy_repo] False
     [broken_worktree_repo, healthy_repo] = Inl JSONDecodeError \<and>
   process_repositories default_package_name [broken_worktree_repo, healthy_repo] True
     [healthy_repo, broken_worktree_repo] = Inl JSONDecodeError \<and>
   \<not> isl (track_repo_version_changes default_package_name healthy_repo)"
  by code_simp

subsection \<open>Further properties\<close>

text \<open>
  The precedence of the trackers on a well-formed manifest: the direct override when it
  is there (truthy), else the version of the first transitive override in the insertion
  order of \<^verbatim>\<open>pnpm.overrides\<close> when that is there, else the dependency, read from
  \<^verbatim>\<open>dependencies\<close> and, when that gave nothing, from \<^verbatim>\<open>devDependencies\<close>.
\<close>

theorem tracker_precedence:
  assumes "well_formed_manifest (JObj kvs)"
  shows "\<exists>v. extract_component_versions pkg (JObj kvs) = Inr v \<and>
           override v = entry_of (overrides_entries kvs) pkg \<and>
           transitive_overrides v = transitive_of pkg (overrides_entries kvs) \<and>
           dependency v =
             (let d = entry_of (section_entries ''dependencies'' kvs) pkg
              in if \<not> truthy d \<and> map_of kvs ''devDependencies'' \<noteq> None
                 then entry_of (section_entries ''devDependencies'' kvs) pkg else d) \<and>
           effective_of v =
             (if truthy (override v) then override v
              else if transitive_overrides v \<noteq> [] \<and> truthy (snd (hd (transitive_overrides v)))
              then snd (hd (transitive_overrides v))
              else dependency v)"
  using extract_well_formed [OF assms, of pkg]
  by (auto simp: effective_of_def Let_def)

text \<open>Two transitive overrides and no direct one: the first inserted wins.\<close>

theorem tracker_precedence_witness:
  "well_formed_manifest widgets_manifest \<and>
   map_sum id effective_of (extract_component_versions ''widgets'' widgets_manifest) =
     Inr (JStr ''2.0.0'') \<and>
   map_sum id transitive_overrides (extract_component_versions ''widgets'' widgets_manifest) =
     Inr [(''pkgA'', JStr ''2.0.0''), (''pkgB'', JStr ''3.0.0'')]"
proof -
  have wf: "well_formed_manifest (JObj [(''name'', JStr ''account-page''),
           (''dependencies'', JObj [(''widgets'', JStr ''1.0.0'')]),
           (''pnpm'', JObj [(''overrides'',
              JObj [(''pkgA>widgets'', JStr ''2.0.0''), (''pkgB>widgets'', JStr ''3.0.0'')])])])"
    by code_simp
  from tracker_precedence [OF wf, of "''widgets''"]
  obtain v where v: "extract_component_versions ''widgets'' widgets_manifest = Inr v"
    by (auto simp: widgets_manifest_def)
  have a: "map_sum id effective_of (extract_component_versions ''widgets'' widgets_manifest) =
     Inr (JStr ''2.0.0'')"
    by code_simp
  have b: "map_sum id transitive_overrides (extract_component_versions ''widgets'' widgets_manifest) =
     Inr [(''pkgA'', JStr ''2.0.0''), (''pkgB'', JStr ''3.0.0'')]"
    by code_simp
  show ?thesis
    using wf a b by (simp add: widgets_manifest_def)
qed

lemma track_commit_skips:
  "gc_manifest c = ShowFailed \<or> gc_manifest c = Unparsable \<Longrightarrow>
     track_commit pkg name st c = Inr st"
  by (auto simp: track_commit_def)

text \<open>
  The failures \<^verbatim>\<open>track_repo_version_changes\<close> does contain: a failing \<^verbatim>\<open>git log\<close> and
  a failing metadata query give the repository's error result, with no changes; a commit
  whose manifest cannot be retrieved or parsed is skipped.
\<close>

theorem handled_failures_degrade:
  "(repo_log r = LogFailed msg \<longrightarrow>
      track_repo_version_changes pkg r = Inr (error_result r msg)) \<and>
   (\<forall>cs. repo_log r = LogCommits cs \<and>
      track_commits pkg (repo_name r) initial_state cs = Inl (CalledProcessError msg) \<longrightarrow>
      track_repo_version_changes pkg r = Inr (error_result r msg)) \<and>
   rr_repository (error_result r msg) = repo_name r \<and>
   rr_error (error_result r msg) = Some msg \<and>
   rr_changes (error_result r msg) = [] \<and>
   rr_total_changes (error_result r msg) = 0 \<and>
   (gc_manifest c = ShowFailed \<or> gc_manifest c = Unparsable \<longrightarrow>
      track_commit pkg name st c = Inr st)"
  by (auto simp: track_repo_version_changes_def error_result_def bindE_Inl track_commit_def)

text \<open>A repository whose \<^verbatim>\<open>git log\<close> fails is recorded, and the run goes on.\<close>

theorem handled_failures_degrade_witness:
  "track_repo_version_changes default_package_name unreadable_repo =
     Inr (error_result unreadable_repo ''git log failed'') \<and>
   rr_changes (error_result unreadable_repo ''git log failed'') = [] \<and>
   map fst (projr (process_repositories default_package_name [unreadable_repo, healthy_repo]
      False [unreadable_repo, healthy_repo])) = [''bills-page'', ''send-flow'']"
proof -
  have l: "repo_log unreadable_repo = LogFailed ''git log failed''"
    by (simp add: unreadable_repo_def)
  have a: "map fst (projr (process_repositories default_package_name [unreadable_repo, healthy_repo]
      False [unreadable_repo, healthy_repo])) = [''bills-page'', ''send-flow'']"
    by code_simp
  show ?thesis
    using handled_failures_degrade [of unreadable_repo "''git log failed''" default_package_name]
      l a
    by simp
qed

text \<open>A repository with no adoption record: no update, and every statistic absent.\<close>

theorem no_adoptions_no_statistics:
  "total_updates (repo_metrics_of rel []) = 0 \<and>
   m_versions (repo_metrics_of rel []) = [] \<and>
   avg_lag_days (repo_metrics_of rel []) = None \<and>
   median_lag_days (repo_metrics_of rel []) = None \<and>
   min_lag_days (repo_metrics_of rel []) = None \<and>
   max_lag_days (repo_metrics_of rel []) = None \<and>
   avg_versions_skipped (repo_metrics_of rel []) = None \<and>
   avg_update_interval (repo_metrics_of rel []) = None"
  by (simp add: repo_metrics_of_def finish_metrics_def initial_metrics_def)

text \<open>The end-to-end scenario: lags 0 and 10 for A, 5 for B, each mean 5, and 5 over
  the three.\<close>

theorem end_to_end_scenario:
  "adoption_lags (repo_metrics_of scenario_releases scenario_adoptions_a) = [0, 10] \<and>
   avg_lag_days (repo_metrics_of scenario_releases scenario_adoptions_a) = Some 5 \<and>
   adoption_lags (repo_metrics_of scenario_releases scenario_adoptions_b) = [5] \<and>
   avg_lag_days (repo_metrics_of scenario_releases scenario_adoptions_b) = Some 5 \<and>
   mean (adoption_lags (repo_metrics_of scenario_releases scenario_adoptions_a) @
         adoption_lags (repo_metrics_of scenario_releases scenario_adoptions_b)) = 5"
  by code_simp

end
